theory Spec2Isabelle
  imports Complex_Main
begin

section \<open>JavaScript numbers\<close>

text \<open>
  The statistics layer of the dashboard computes with JavaScript Numbers. A Number is
  modelled as a real or one of the three special values \<open>Infinity\<close>, \<open>-Infinity\<close>
  and \<open>NaN\<close>. The operations of this section are exact on finite values and follow
  ECMAScript on the special values. The helpers of stats.js are modelled with every result
  rounded to a double (section Rounding), so that a sum can lose digits and overflow as it
  does in the program; the chart functions are modelled on the operations of this section
  as they are. Every divisor that can be zero in the modelled code is a count or a
  length, hence the positive zero, so the quotient of a finite value by zero takes the
  sign of the dividend.
\<close>

datatype jsnum = Fin real | PInf | NInf | NaN

fun js_neg :: "jsnum \<Rightarrow> jsnum" where
  "js_neg (Fin a) = Fin (- a)"
| "js_neg PInf = NInf"
| "js_neg NInf = PInf"
| "js_neg NaN = NaN"

fun js_add :: "jsnum \<Rightarrow> jsnum \<Rightarrow> jsnum" where
  "js_add (Fin a) (Fin b) = Fin (a + b)"
| "js_add NaN y = NaN"
| "js_add x NaN = NaN"
| "js_add PInf NInf = NaN"
| "js_add NInf PInf = NaN"
| "js_add PInf y = PInf"
| "js_add x PInf = PInf"
| "js_add NInf y = NInf"
| "js_add x NInf = NInf"

definition js_sub :: "jsnum \<Rightarrow> jsnum \<Rightarrow> jsnum" where
  "js_sub x y = js_add x (js_neg y)"

text \<open>The product of an infinity with a finite value: zero gives NaN, otherwise the sign decides.\<close>

definition inf_times :: "bool \<Rightarrow> real \<Rightarrow> jsnum" where
  "inf_times pos a = (if a = 0 then NaN else if (0 < a) = pos then PInf else NInf)"

fun js_mul :: "jsnum \<Rightarrow> jsnum \<Rightarrow> jsnum" where
  "js_mul (Fin a) (Fin b) = Fin (a * b)"
| "js_mul NaN y = NaN"
| "js_mul x NaN = NaN"
| "js_mul PInf (Fin b) = inf_times True b"
| "js_mul NInf (Fin b) = inf_times False b"
| "js_mul (Fin a) PInf = inf_times True a"
| "js_mul (Fin a) NInf = inf_times False a"
| "js_mul PInf PInf = PInf"
| "js_mul NInf NInf = PInf"
| "js_mul PInf NInf = NInf"
| "js_mul NInf PInf = NInf"

fun js_div :: "jsnum \<Rightarrow> jsnum \<Rightarrow> jsnum" where
  "js_div (Fin a) (Fin b) =
     (if b = 0 then (if a = 0 then NaN else if 0 < a then PInf else NInf)
      else Fin (a / b))"
| "js_div NaN y = NaN"
| "js_div x NaN = NaN"
| "js_div (Fin a) PInf = Fin 0"
| "js_div (Fin a) NInf = Fin 0"
| "js_div PInf (Fin b) = (if 0 \<le> b then PInf else NInf)"
| "js_div NInf (Fin b) = (if 0 \<le> b then NInf else PInf)"
| "js_div x y = NaN"

fun js_sqrt :: "jsnum \<Rightarrow> jsnum" where
  "js_sqrt (Fin a) = (if a < 0 then NaN else Fin (sqrt a))"
| "js_sqrt PInf = PInf"
| "js_sqrt NInf = NaN"
| "js_sqrt NaN = NaN"

fun js_exp :: "jsnum \<Rightarrow> jsnum" where
  "js_exp (Fin a) = Fin (exp a)"
| "js_exp PInf = PInf"
| "js_exp NInf = Fin 0"
| "js_exp NaN = NaN"

fun js_abs :: "jsnum \<Rightarrow> jsnum" where
  "js_abs (Fin a) = Fin \<bar>a\<bar>"
| "js_abs PInf = PInf"
| "js_abs NInf = PInf"
| "js_abs NaN = NaN"

fun js_floor :: "jsnum \<Rightarrow> jsnum" where
  "js_floor (Fin a) = Fin (of_int \<lfloor>a\<rfloor>)"
| "js_floor x = x"

text \<open>\<open>Math.pow(x, 2)\<close>.\<close>

definition js_pow2 :: "jsnum \<Rightarrow> jsnum" where
  "js_pow2 x = js_mul x x"

text \<open>The comparisons \<open><\<close>, \<open><=\<close>, \<open>></\<close>, \<open>>=\<close> and \<open>===\<close>: false as soon as one side is NaN.\<close>

fun js_lt :: "jsnum \<Rightarrow> jsnum \<Rightarrow> bool" where
  "js_lt (Fin a) (Fin b) = (a < b)"
| "js_lt NaN y = False"
| "js_lt x NaN = False"
| "js_lt x NInf = False"
| "js_lt PInf y = False"
| "js_lt x y = True"

fun js_eq :: "jsnum \<Rightarrow> jsnum \<Rightarrow> bool" where
  "js_eq NaN y = False"
| "js_eq x NaN = False"
| "js_eq x y = (x = y)"

definition js_gt :: "jsnum \<Rightarrow> jsnum \<Rightarrow> bool" where
  "js_gt x y = js_lt y x"

definition js_le :: "jsnum \<Rightarrow> jsnum \<Rightarrow> bool" where
  "js_le x y = (js_lt x y \<or> js_eq x y)"

definition js_ge :: "jsnum \<Rightarrow> jsnum \<Rightarrow> bool" where
  "js_ge x y = js_le y x"

text \<open>\<open>Math.max\<close> and \<open>Math.min\<close> of two arguments: NaN as soon as one argument is NaN.\<close>

fun js_max :: "jsnum \<Rightarrow> jsnum \<Rightarrow> jsnum" where
  "js_max NaN y = NaN"
| "js_max x NaN = NaN"
| "js_max x y = (if js_lt x y then y else x)"

fun js_min :: "jsnum \<Rightarrow> jsnum \<Rightarrow> jsnum" where
  "js_min NaN y = NaN"
| "js_min x NaN = NaN"
| "js_min x y = (if js_lt y x then y else x)"

text \<open>
  \<open>x.toFixed(d)\<close> on a finite value of magnitude below \<open>10^21\<close>: the decimal with
  \<open>d\<close> places nearest to the magnitude, a tie to the larger one, with the sign of \<open>x\<close>. A
  larger magnitude is printed in full.
\<close>

definition round_dec :: "nat \<Rightarrow> real \<Rightarrow> real" where
  "round_dec d a =
     (if 10 ^ 21 \<le> \<bar>a\<bar> then a
      else sgn a * of_int \<lfloor>\<bar>a\<bar> * 10 ^ d + 1 / 2\<rfloor> / 10 ^ d)"

section \<open>Rounding\<close>

text \<open>
  A rounding function \<open>fl\<close> maps the exact real result of an operation to the Number
  that the machine delivers. The special values are not rounded. Counts and lengths are
  integers below \<open>2^53\<close> and are exact.
\<close>

definition rounded :: "(real \<Rightarrow> jsnum) \<Rightarrow> jsnum \<Rightarrow> jsnum" where
  "rounded fl x = (case x of Fin a \<Rightarrow> fl a | PInf \<Rightarrow> PInf | NInf \<Rightarrow> NInf | NaN \<Rightarrow> NaN)"

definition fl_add :: "(real \<Rightarrow> jsnum) \<Rightarrow> jsnum \<Rightarrow> jsnum \<Rightarrow> jsnum" where
  "fl_add fl x y = rounded fl (js_add x y)"

definition fl_sub :: "(real \<Rightarrow> jsnum) \<Rightarrow> jsnum \<Rightarrow> jsnum \<Rightarrow> jsnum" where
  "fl_sub fl x y = rounded fl (js_sub x y)"

definition fl_mul :: "(real \<Rightarrow> jsnum) \<Rightarrow> jsnum \<Rightarrow> jsnum \<Rightarrow> jsnum" where
  "fl_mul fl x y = rounded fl (js_mul x y)"

definition fl_div :: "(real \<Rightarrow> jsnum) \<Rightarrow> jsnum \<Rightarrow> jsnum \<Rightarrow> jsnum" where
  "fl_div fl x y = rounded fl (js_div x y)"

definition fl_sqrt :: "(real \<Rightarrow> jsnum) \<Rightarrow> jsnum \<Rightarrow> jsnum" where
  "fl_sqrt fl x = rounded fl (js_sqrt x)"

text \<open>\<open>Math.pow(x, 2)\<close>, taken to be the rounded product of \<open>x\<close> with itself.\<close>

definition fl_pow2 :: "(real \<Rightarrow> jsnum) \<Rightarrow> jsnum \<Rightarrow> jsnum" where
  "fl_pow2 fl x = rounded fl (js_mul x x)"

text \<open>
  The rounding of the program is that of the IEEE 754 doubles: to the nearest double, a
  tie to the one with the even significand, and to an infinity from \<open>2^1024\<close> on.
  \<open>round_even\<close> rounds a quotient to the nearest integer, a tie to the even one.
  \<open>ulp_exp\<close> is the exponent of the unit in the last place of a positive value: 52
  binary places below its leading bit, and \<open>-1074\<close> for the subnormal values.
  \<open>round_val\<close> is the nearest multiple of that unit, and \<open>round_mag\<close> tests it for
  overflow. \<open>binary64\<close> rounds the magnitude and keeps the sign; the negative zero is not
  distinguished from zero.
\<close>

definition round_even :: "real \<Rightarrow> int" where
  "round_even q =
     (let n = \<lfloor>q\<rfloor> in
      if q - of_int n < 1 / 2 then n
      else if 1 / 2 < q - of_int n then n + 1
      else if even n then n else n + 1)"

definition ulp_exp :: "real \<Rightarrow> int" where
  "ulp_exp a = max \<lfloor>log 2 a\<rfloor> (- 1022) - 52"

definition round_val :: "real \<Rightarrow> real" where
  "round_val a = of_int (round_even (a / 2 powr of_int (ulp_exp a))) * 2 powr of_int (ulp_exp a)"

definition round_mag :: "real \<Rightarrow> jsnum" where
  "round_mag a = (if 2 ^ 1024 \<le> round_val a then PInf else Fin (round_val a))"

definition binary64 :: "real \<Rightarrow> jsnum" where
  "binary64 a = (if a < 0 then js_neg (round_mag (- a)) else round_mag a)"

text \<open>
  What the general properties below use of a rounding: it never delivers NaN, it is
  monotone, it leaves a value that it delivers unchanged, it is exact on 0 and on 1, and
  it does not overflow below \<open>10^21\<close>. \<open>binary64\<close> is such a rounding, and so is the
  exact arithmetic \<open>Fin\<close>.
\<close>

definition rounding :: "(real \<Rightarrow> jsnum) \<Rightarrow> bool" where
  "rounding fl =
     ((\<forall>a. fl a \<noteq> NaN) \<and>
      (\<forall>a b. a \<le> b \<longrightarrow> js_le (fl a) (fl b)) \<and>
      (\<forall>a b. fl a = Fin b \<longrightarrow> fl b = Fin b) \<and>
      fl 0 = Fin 0 \<and> fl 1 = Fin 1 \<and>
      (\<forall>a. \<bar>a\<bar> \<le> 10 ^ 21 \<longrightarrow> (\<exists>b. fl a = Fin b)))"

text \<open>
  \<open>parseFloat(x.toFixed(d))\<close>. \<open>toFixed\<close> prints the special values by name and
  \<open>parseFloat\<close> reads them back; a finite value of magnitude at least \<open>10^21\<close> is
  printed in full and read back unchanged; any other finite value is printed rounded
  to \<open>d\<close> decimals (\<open>round_dec\<close>) and \<open>parseFloat\<close> rounds the decimal to a Number.
\<close>

fun toFixed_parsed :: "(real \<Rightarrow> jsnum) \<Rightarrow> nat \<Rightarrow> jsnum \<Rightarrow> jsnum" where
  "toFixed_parsed fl d (Fin a) = (if 10 ^ 21 \<le> \<bar>a\<bar> then Fin a else fl (round_dec d a))"
| "toFixed_parsed fl d x = x"

section \<open>stats.js\<close>

text \<open>
  Every function of this section takes the rounding \<open>fl\<close> of its arithmetic as its first
  argument; the program is the instance \<open>binary64\<close>.
\<close>

text \<open>
  An array element handed to the statistics helpers: \<open>null\<close>, \<open>undefined\<close> or a Number.
  A finite Number of the program is a double, an element \<open>Num (Fin a)\<close> with
  \<open>binary64 a = Fin a\<close>; the properties below hold for every real \<open>a\<close>.
\<close>

datatype jsval = Null | Undefined | Num jsnum

text \<open>The filter predicate \<open>val !== null && val !== undefined && !isNaN(val)\<close>.\<close>

fun valid :: "jsval \<Rightarrow> bool" where
  "valid Null = False"
| "valid Undefined = False"
| "valid (Num NaN) = False"
| "valid (Num x) = True"

fun num_of :: "jsval \<Rightarrow> jsnum" where
  "num_of (Num x) = x"
| "num_of v = NaN"

text \<open>\<open>reduce((sum, val) => sum + val, 0)\<close>.\<close>

definition js_sum :: "(real \<Rightarrow> jsnum) \<Rightarrow> jsnum list \<Rightarrow> jsnum" where
  "js_sum fl xs = foldl (fl_add fl) (Fin 0) xs"

definition mean :: "(real \<Rightarrow> jsnum) \<Rightarrow> jsval list \<Rightarrow> jsnum" where
  "mean fl arr =
     (let filtered = filter valid arr in
      if length filtered = 0 then Fin 0
      else fl_div fl (js_sum fl (map num_of filtered)) (Fin (real (length filtered))))"

definition standardDeviation :: "(real \<Rightarrow> jsnum) \<Rightarrow> jsval list \<Rightarrow> jsnum" where
  "standardDeviation fl arr =
     (let filtered = filter valid arr in
      if length filtered \<le> 1 then Fin 0
      else let avg = mean fl filtered;
               squaredDiffs = map (\<lambda>v. fl_pow2 fl (fl_sub fl (num_of v) avg)) filtered;
               variance = fl_div fl (js_sum fl squaredDiffs) (Fin (real (length filtered) - 1))
           in fl_sqrt fl variance)"

record ci_result =
  ci_mean :: jsnum
  ci_lower :: jsnum
  ci_upper :: jsnum
  ci_se :: jsnum

definition confidenceInterval95 :: "(real \<Rightarrow> jsnum) \<Rightarrow> jsval list \<Rightarrow> ci_result" where
  "confidenceInterval95 fl arr =
     (let filtered = filter valid arr in
      if length filtered = 0
      then \<lparr>ci_mean = Fin 0, ci_lower = Fin 0, ci_upper = Fin 0, ci_se = Fin 0\<rparr>
      else let avg = mean fl filtered;
               sd = standardDeviation fl filtered;
               se = fl_div fl sd (fl_sqrt fl (Fin (real (length filtered))));
               margin = fl_mul fl (fl 1.96) se
           in \<lparr>ci_mean = toFixed_parsed fl 2 avg,
               ci_lower = toFixed_parsed fl 2 (fl_sub fl avg margin),
               ci_upper = toFixed_parsed fl 2 (fl_add fl avg margin),
               ci_se = toFixed_parsed fl 2 se\<rparr>)"

text \<open>The \<open>pValue\<close> field of \<open>tTest\<close> is the number 1 on the early return and a string otherwise.\<close>

datatype pvalue = PNumber jsnum | PString string

text \<open>The result object of \<open>tTest\<close>; the early return has no \<open>df\<close> property.\<close>

record ttest_result =
  tStatistic :: jsnum
  pValue :: pvalue
  meanDiff :: jsnum
  df :: "jsnum option"

text \<open>
  The locals \<open>meanDiff\<close>, \<open>pooledSE\<close>, \<open>tStatistic\<close> and \<open>df\<close> of \<open>tTest\<close>, as functions
  of its two filtered arrays.
\<close>

definition t_meanDiff :: "(real \<Rightarrow> jsnum) \<Rightarrow> jsval list \<Rightarrow> jsval list \<Rightarrow> jsnum" where
  "t_meanDiff fl filtered1 filtered2 = fl_sub fl (mean fl filtered1) (mean fl filtered2)"

definition t_pooledSE :: "(real \<Rightarrow> jsnum) \<Rightarrow> jsval list \<Rightarrow> jsval list \<Rightarrow> jsnum" where
  "t_pooledSE fl filtered1 filtered2 =
     (let sd1 = standardDeviation fl filtered1; sd2 = standardDeviation fl filtered2;
          n1 = Fin (real (length filtered1)); n2 = Fin (real (length filtered2))
      in fl_sqrt fl (fl_add fl (fl_div fl (fl_mul fl sd1 sd1) n1) (fl_div fl (fl_mul fl sd2 sd2) n2)))"

definition t_statistic :: "(real \<Rightarrow> jsnum) \<Rightarrow> jsval list \<Rightarrow> jsval list \<Rightarrow> jsnum" where
  "t_statistic fl filtered1 filtered2 =
     (if js_eq (t_pooledSE fl filtered1 filtered2) (Fin 0) then Fin 0
      else fl_div fl (t_meanDiff fl filtered1 filtered2) (t_pooledSE fl filtered1 filtered2))"

definition t_df :: "(real \<Rightarrow> jsnum) \<Rightarrow> jsval list \<Rightarrow> jsval list \<Rightarrow> jsnum" where
  "t_df fl filtered1 filtered2 =
     (let sd1 = standardDeviation fl filtered1; sd2 = standardDeviation fl filtered2;
          n1 = Fin (real (length filtered1)); n2 = Fin (real (length filtered2));
          v1 = fl_div fl (fl_mul fl sd1 sd1) n1; v2 = fl_div fl (fl_mul fl sd2 sd2) n2
      in js_floor
           (fl_div fl (fl_pow2 fl (fl_add fl v1 v2))
              (fl_add fl (fl_div fl (fl_pow2 fl v1) (js_sub n1 (Fin 1)))
                         (fl_div fl (fl_pow2 fl v2) (js_sub n2 (Fin 1))))))"

definition tTest :: "(real \<Rightarrow> jsnum) \<Rightarrow> jsval list \<Rightarrow> jsval list \<Rightarrow> ttest_result" where
  "tTest fl arr1 arr2 =
     (let filtered1 = filter valid arr1; filtered2 = filter valid arr2 in
      if length filtered1 = 0 \<or> length filtered2 = 0
      then \<lparr>tStatistic = Fin 0, pValue = PNumber (Fin 1), meanDiff = Fin 0, df = None\<rparr>
      else let t = t_statistic fl filtered1 filtered2;
               absT = js_abs t;
               p = (if js_lt absT (fl 1.96) then ''>0.05''
                    else if js_lt absT (fl 2.58) then ''<0.05''
                    else ''<0.01'')
           in \<lparr>tStatistic = toFixed_parsed fl 3 t,
               pValue = PString p,
               meanDiff = toFixed_parsed fl 2 (t_meanDiff fl filtered1 filtered2),
               df = Some (t_df fl filtered1 filtered2)\<rparr>)"

section \<open>Survival analysis (charts module)\<close>

text \<open>A survival record, with the two fields the estimators read: \<open>time_months\<close> and \<open>event\<close>.\<close>

record surv_record =
  time_months :: real
  event :: int

record km_point =
  time :: real
  survival :: jsnum
  lower :: jsnum
  upper :: jsnum
  atRisk :: int
  events :: int

text \<open>The values of \<open>new Set(xs)\<close> in insertion order: each value once, at its first occurrence.\<close>

definition set_values :: "real list \<Rightarrow> real list" where
  "set_values xs = foldl (\<lambda>acc x. if x \<in> set acc then acc else acc @ [x]) [] xs"

text \<open>
  One iteration of the loop of \<open>calculateKM\<close> at the time \<open>t\<close>: the pushed point and
  the new values of \<open>survProb\<close> and \<open>greenwoodVar\<close>.
\<close>

definition km_step :: "surv_record list \<Rightarrow> jsnum \<Rightarrow> jsnum \<Rightarrow> real \<Rightarrow> km_point \<times> jsnum \<times> jsnum" where
  "km_step sortedData survProb greenwoodVar t =
     (let eventsAtT = length (filter (\<lambda>d. time_months d = t \<and> event d = 1) sortedData);
          atRiskT = length (filter (\<lambda>d. t \<le> time_months d) sortedData);
          e = Fin (real eventsAtT);
          n = Fin (real atRiskT);
          step = (0 < eventsAtT \<and> 0 < atRiskT);
          survProb' = (if step then js_mul survProb (js_sub (Fin 1) (js_div e n)) else survProb);
          greenwoodVar' = (if step then js_add greenwoodVar (js_div e (js_mul n (js_sub n e)))
                           else greenwoodVar);
          se = js_mul survProb' (js_sqrt greenwoodVar');
          z = Fin 1.96;
          lo = js_max (Fin 0) (js_sub survProb' (js_mul z se));
          up = js_min (Fin 1) (js_add survProb' (js_mul z se))
      in (\<lparr>time = t, survival = survProb', lower = lo, upper = up,
           atRisk = int atRiskT - int eventsAtT, events = int eventsAtT\<rparr>,
          survProb', greenwoodVar'))"

text \<open>The loop over \<open>uniqueTimes\<close>, pushing one point per time.\<close>

fun km_loop :: "surv_record list \<Rightarrow> jsnum \<Rightarrow> jsnum \<Rightarrow> real list \<Rightarrow> km_point list" where
  "km_loop sortedData survProb greenwoodVar [] = []"
| "km_loop sortedData survProb greenwoodVar (t # ts) =
     (case km_step sortedData survProb greenwoodVar t of
        (p, survProb', greenwoodVar') \<Rightarrow> p # km_loop sortedData survProb' greenwoodVar' ts)"

definition uniqueTimes :: "surv_record list \<Rightarrow> real list" where
  "uniqueTimes sortedData = sort (set_values (map time_months sortedData))"

definition calculateKM :: "surv_record list \<Rightarrow> km_point list" where
  "calculateKM data =
     (let sorted = sort_key time_months data
      in \<lparr>time = 0, survival = Fin 1, lower = Fin 1, upper = Fin 1,
          atRisk = int (length sorted), events = 0\<rparr>
         # km_loop sorted (Fin 1) (Fin 0) (uniqueTimes sorted))"

text \<open>
  The loop of \<open>calculateRMST\<close>: it returns \<open>rmst\<close>, \<open>prevTime\<close> and
  \<open>prevSurvival\<close> as they stand when the loop ends or breaks. On the break the two
  \<open>prev\<close> variables are left as they were before the iteration.
\<close>

fun rmst_loop :: "real \<Rightarrow> jsnum \<Rightarrow> real \<Rightarrow> jsnum \<Rightarrow> km_point list \<Rightarrow> jsnum \<times> real \<times> jsnum" where
  "rmst_loop restrictionTime rmst prevTime prevSurvival [] = (rmst, prevTime, prevSurvival)"
| "rmst_loop restrictionTime rmst prevTime prevSurvival (p # ps) =
     (let currentTime = min (time p) restrictionTime;
          currentSurvival = survival p;
          timeInterval = currentTime - prevTime;
          avgSurvival = js_div (js_add prevSurvival currentSurvival) (Fin 2);
          rmst' = js_add rmst (js_mul (Fin timeInterval) avgSurvival)
      in if restrictionTime \<le> currentTime then (rmst', prevTime, prevSurvival)
         else rmst_loop restrictionTime rmst' currentTime currentSurvival ps)"

definition calculateRMST :: "km_point list \<Rightarrow> real \<Rightarrow> jsnum" where
  "calculateRMST kmData restrictionTime =
     (case rmst_loop restrictionTime (Fin 0) 0 (Fin 1) kmData of
        (rmst, prevTime, prevSurvival) \<Rightarrow>
          if prevTime < restrictionTime
          then js_add rmst (js_mul (Fin (restrictionTime - prevTime)) prevSurvival)
          else rmst)"

record hr_result =
  hr :: jsnum
  ciLower :: jsnum
  ciUpper :: jsnum
  nA :: nat
  nB :: nat

definition calculateHR :: "surv_record list \<Rightarrow> surv_record list \<Rightarrow> hr_result" where
  "calculateHR armA armB =
     (let eventsA = Fin (real (length (filter (\<lambda>d. event d = 1) armA)));
          eventsB = Fin (real (length (filter (\<lambda>d. event d = 1) armB)));
          totalA = length armA;
          totalB = length armB;
          rateA = js_div eventsA (Fin (real totalA));
          rateB = js_div eventsB (Fin (real totalB));
          h = js_div rateA rateB;
          se = js_sqrt (js_add (js_div (Fin 1) eventsA) (js_div (Fin 1) eventsB));
          lo = js_mul h (js_exp (js_mul (Fin (- 1.96)) se));
          up = js_mul h (js_exp (js_mul (Fin 1.96) se))
      in \<lparr>hr = h, ciLower = lo, ciUpper = up, nA = totalA, nB = totalB\<rparr>)"

section \<open>Diagnostic classifier metrics (charts module)\<close>

text \<open>
  A patient of the diagnostic data set, with the two fields the curves read. The chart
  functions return at once when their container element is missing and otherwise
  compute what is modelled here before plotting it.
\<close>

record patient =
  disease_status :: string
  predicted_probability :: real

text \<open>\<open>[...data].sort((a, b) => b.predicted_probability - a.predicted_probability)\<close>: stable, descending.\<close>

definition sort_desc :: "patient list \<Rightarrow> patient list" where
  "sort_desc data = sort_key (\<lambda>p. - predicted_probability p) data"

record roc_point =
  fpr :: jsnum
  tpr :: jsnum
  threshold :: real

text \<open>The sweep of \<open>createROCCurve\<close> over the sorted patients, carrying \<open>tp\<close> and \<open>fp\<close>.\<close>

fun roc_sweep :: "nat \<Rightarrow> nat \<Rightarrow> nat \<Rightarrow> nat \<Rightarrow> patient list \<Rightarrow> roc_point list" where
  "roc_sweep totalPos totalNeg tp fp [] = []"
| "roc_sweep totalPos totalNeg tp fp (p # ps) =
     (let tp' = (if disease_status p = ''Positive'' then tp + 1 else tp);
          fp' = (if disease_status p = ''Positive'' then fp else fp + 1)
      in \<lparr>fpr = js_div (Fin (real fp')) (Fin (real totalNeg)),
          tpr = js_div (Fin (real tp')) (Fin (real totalPos)),
          threshold = predicted_probability p\<rparr>
         # roc_sweep totalPos totalNeg tp' fp' ps)"

text \<open>The trapezoidal loop: \<open>prev\<close> is \<open>rocPoints[i-1]\<close>, the list holds \<open>rocPoints[i..]\<close>.\<close>

fun auc_loop :: "jsnum \<Rightarrow> roc_point \<Rightarrow> roc_point list \<Rightarrow> jsnum" where
  "auc_loop auc prev [] = auc"
| "auc_loop auc prev (p # ps) =
     (let width = js_sub (fpr p) (fpr prev);
          avgHeight = js_div (js_add (tpr p) (tpr prev)) (Fin 2)
      in auc_loop (js_add auc (js_mul width avgHeight)) p ps)"

text \<open>The search for the point of largest Youden J, carrying \<open>maxJ\<close> and \<open>optimalPoint\<close>.\<close>

fun youden_loop :: "jsnum \<Rightarrow> roc_point \<Rightarrow> roc_point list \<Rightarrow> jsnum \<times> roc_point" where
  "youden_loop maxJ optimalPoint [] = (maxJ, optimalPoint)"
| "youden_loop maxJ optimalPoint (p # ps) =
     (let j = js_sub (tpr p) (fpr p)
      in if js_gt j maxJ then youden_loop j p ps else youden_loop maxJ optimalPoint ps)"

record pr_point =
  precision :: jsnum
  recall :: jsnum
  pr_threshold :: real

text \<open>
  One iteration of the sweep of \<open>createPRCurve\<close> at the patient \<open>p\<close>: the pushed point
  and the new values of \<open>tp\<close>, \<open>fp\<close>, \<open>prevRecall\<close> and \<open>ap\<close>.
\<close>

definition pr_step ::
  "nat \<Rightarrow> nat \<Rightarrow> nat \<Rightarrow> jsnum \<Rightarrow> jsnum \<Rightarrow> patient \<Rightarrow> pr_point \<times> nat \<times> nat \<times> jsnum \<times> jsnum" where
  "pr_step totalPos tp fp prevRecall apv p =
     (let tp' = (if disease_status p = ''Positive'' then tp + 1 else tp);
          fp' = (if disease_status p = ''Positive'' then fp else fp + 1);
          prec = js_div (Fin (real tp')) (Fin (real tp' + real fp'));
          rec = js_div (Fin (real tp')) (Fin (real totalPos));
          grows = js_gt rec prevRecall;
          apv' = (if grows then js_add apv (js_mul prec (js_sub rec prevRecall)) else apv);
          prevRecall' = (if grows then rec else prevRecall)
      in (\<lparr>precision = prec, recall = rec, pr_threshold = predicted_probability p\<rparr>,
          tp', fp', prevRecall', apv'))"

text \<open>The sweep over the sorted patients: the pushed points and the final \<open>ap\<close>.\<close>

fun pr_loop :: "nat \<Rightarrow> nat \<Rightarrow> nat \<Rightarrow> jsnum \<Rightarrow> jsnum \<Rightarrow> patient list \<Rightarrow> pr_point list \<times> jsnum" where
  "pr_loop totalPos tp fp prevRecall apv [] = ([], apv)"
| "pr_loop totalPos tp fp prevRecall apv (p # ps) =
     (case pr_step totalPos tp fp prevRecall apv p of
        (pt, tp', fp', prevRecall', apv') \<Rightarrow>
          (case pr_loop totalPos tp' fp' prevRecall' apv' ps of
             (pts, final) \<Rightarrow> (pt # pts, final)))"

text \<open>
  The AUC loop of \<open>createDiagnosticGauges\<close>, carrying \<open>aucTp\<close>, \<open>aucFp\<close>, \<open>auc\<close> and
  \<open>prevFpr\<close>; \<open>posLen\<close> and \<open>negLen\<close> are \<open>pos.length\<close> and \<open>neg.length\<close>.
\<close>

fun gauge_auc_loop :: "nat \<Rightarrow> nat \<Rightarrow> nat \<Rightarrow> nat \<Rightarrow> jsnum \<Rightarrow> jsnum \<Rightarrow> patient list \<Rightarrow> jsnum" where
  "gauge_auc_loop posLen negLen aucTp aucFp auc prevFpr [] = auc"
| "gauge_auc_loop posLen negLen aucTp aucFp auc prevFpr (p # ps) =
     (let aucTp' = (if disease_status p = ''Positive'' then aucTp + 1 else aucTp);
          aucFp' = (if disease_status p = ''Positive'' then aucFp else aucFp + 1);
          tprv = js_div (Fin (real aucTp')) (Fin (real posLen));
          fprv = js_div (Fin (real aucFp')) (Fin (real negLen))
      in gauge_auc_loop posLen negLen aucTp' aucFp'
           (js_add auc (js_mul tprv (js_sub fprv prevFpr))) fprv ps)"

record roc_result =
  rocPoints :: "roc_point list"
  auc :: jsnum
  maxJ :: jsnum
  optimalPoint :: roc_point

definition createROCCurve :: "patient list \<Rightarrow> roc_result" where
  "createROCCurve data =
     (let sorted = sort_desc data;
          totalPos = length (filter (\<lambda>p. disease_status p = ''Positive'') sorted);
          totalNeg = length (filter (\<lambda>p. disease_status p = ''Negative'') sorted);
          origin = \<lparr>fpr = Fin 0, tpr = Fin 0, threshold = 1\<rparr>;
          points = origin # roc_sweep totalPos totalNeg 0 0 sorted;
          a = auc_loop (Fin 0) origin (roc_sweep totalPos totalNeg 0 0 sorted);
          best = youden_loop (Fin (- 1)) origin points
      in \<lparr>rocPoints = points, auc = a, maxJ = fst best, optimalPoint = snd best\<rparr>)"

record pr_result =
  prPoints :: "pr_point list"
  ap :: jsnum
  prevalence :: jsnum

definition createPRCurve :: "patient list \<Rightarrow> pr_result" where
  "createPRCurve data =
     (let sorted = sort_desc data;
          totalPos = length (filter (\<lambda>p. disease_status p = ''Positive'') sorted);
          swept = pr_loop totalPos 0 0 (Fin 0) (Fin 0) sorted
      in \<lparr>prPoints = \<lparr>precision = Fin 1, recall = Fin 0, pr_threshold = 1\<rparr> # fst swept,
          ap = snd swept,
          prevalence = js_div (Fin (real totalPos)) (Fin (real (length sorted)))\<rparr>)"

text \<open>The value of the AUC gauge that \<open>createDiagnosticGauges\<close> displays.\<close>

definition createDiagnosticGauges_auc :: "patient list \<Rightarrow> jsnum" where
  "createDiagnosticGauges_auc data =
     (let pos = filter (\<lambda>p. disease_status p = ''Positive'') data;
          neg = filter (\<lambda>p. disease_status p = ''Negative'') data;
          sorted = sort_desc data
      in gauge_auc_loop (length pos) (length neg) 0 0 (Fin 0) (Fin 0) sorted)"

section \<open>Vocabulary of the properties\<close>

text \<open>
  The counts that the specification names for the Kaplan-Meier estimator: the records
  with an event at the time \<open>t\<close>, and the records still at risk at \<open>t\<close>.
\<close>

definition events_at :: "surv_record list \<Rightarrow> real \<Rightarrow> nat" where
  "events_at ds t = length (filter (\<lambda>d. time_months d = t \<and> event d = 1) ds)"

definition at_risk :: "surv_record list \<Rightarrow> real \<Rightarrow> nat" where
  "at_risk ds t = length (filter (\<lambda>d. t \<le> time_months d) ds)"

text \<open>A point whose confidence band is ordered around the survival value and lies in \<open>[0, 1]\<close>.\<close>

definition bounds_ok :: "km_point \<Rightarrow> bool" where
  "bounds_ok p = (js_le (Fin 0) (lower p) \<and> js_le (lower p) (survival p) \<and>
                  js_le (survival p) (upper p) \<and> js_le (upper p) (Fin 1))"

text \<open>The precondition on survival records: no time is negative; and the stronger one: every time is positive.\<close>

definition nonneg_times :: "surv_record list \<Rightarrow> bool" where
  "nonneg_times data = list_all (\<lambda>r. 0 \<le> time_months r) data"

definition positive_times :: "surv_record list \<Rightarrow> bool" where
  "positive_times data = list_all (\<lambda>r. 0 < time_months r) data"

text \<open>The number of events of a treatment arm, \<open>eventsA\<close> and \<open>eventsB\<close> in \<open>calculateHR\<close>.\<close>

definition event_count :: "surv_record list \<Rightarrow> nat" where
  "event_count arm = length (filter (\<lambda>d. event d = 1) arm)"

text \<open>
  The numbers of patients labelled \<open>Positive\<close>, labelled \<open>Negative\<close>, and not labelled
  \<open>Positive\<close>. The sweeps count every patient that is not \<open>Positive\<close> as a false
  positive, so the last two differ when a third label occurs.
\<close>

definition pos_count :: "patient list \<Rightarrow> nat" where
  "pos_count data = length (filter (\<lambda>p. disease_status p = ''Positive'') data)"

definition neg_count :: "patient list \<Rightarrow> nat" where
  "neg_count data = length (filter (\<lambda>p. disease_status p = ''Negative'') data)"

definition nonpos_count :: "patient list \<Rightarrow> nat" where
  "nonpos_count data = length (filter (\<lambda>p. disease_status p \<noteq> ''Positive'') data)"

text \<open>
  The Welch statistic in the words of the specification: the difference of the means
  over the pooled standard error \<open>sqrt(sd_A^2 / n_A + sd_B^2 / n_B)\<close>, and 0 when the pooled
  standard error is 0.
\<close>

definition welch_t :: "(real \<Rightarrow> jsnum) \<Rightarrow> jsval list \<Rightarrow> jsval list \<Rightarrow> jsnum" where
  "welch_t fl a b =
     (let na = Fin (real (length (filter valid a)));
          nb = Fin (real (length (filter valid b)));
          va = fl_div fl (fl_mul fl (standardDeviation fl a) (standardDeviation fl a)) na;
          vb = fl_div fl (fl_mul fl (standardDeviation fl b) (standardDeviation fl b)) nb;
          pooled = fl_sqrt fl (fl_add fl va vb)
      in if js_eq pooled (Fin 0) then Fin 0
         else fl_div fl (fl_sub fl (mean fl a) (mean fl b)) pooled)"

text \<open>A finite Number, \<open>Number.isFinite\<close>.\<close>

fun finite_num :: "jsnum \<Rightarrow> bool" where
  "finite_num (Fin a) = True"
| "finite_num x = False"

text \<open>
  A sample on which the code computes a finite mean and a finite standard deviation. A
  sample with an infinity in it, or one whose sum overflows, is not of this kind.
\<close>

definition finite_stats :: "(real \<Rightarrow> jsnum) \<Rightarrow> jsval list \<Rightarrow> bool" where
  "finite_stats fl arr = (finite_num (mean fl arr) \<and> finite_num (standardDeviation fl arr))"

text \<open>A Number that is not negative: a finite one that is at least 0, or \<open>Infinity\<close>.\<close>

definition nonneg_num :: "jsnum \<Rightarrow> bool" where
  "nonneg_num x = (case x of Fin a \<Rightarrow> 0 \<le> a | PInf \<Rightarrow> True | NInf \<Rightarrow> False | NaN \<Rightarrow> False)"

text \<open>A Number that the rounding leaves unchanged.\<close>

definition representable :: "(real \<Rightarrow> jsnum) \<Rightarrow> jsnum \<Rightarrow> bool" where
  "representable fl x = (case x of Fin a \<Rightarrow> fl a = Fin a | PInf \<Rightarrow> True | NInf \<Rightarrow> True | NaN \<Rightarrow> False)"

section \<open>Properties of the survival functions\<close>

lemma js_sub_fin [simp]: "js_sub (Fin a) (Fin b) = Fin (a - b)"
  by (simp add: js_sub_def)

lemma js_div_fin: "b \<noteq> 0 \<Longrightarrow> js_div (Fin a) (Fin b) = Fin (a / b)"
  by simp

lemma js_le_fin [simp]: "js_le (Fin a) (Fin b) = (a \<le> b)"
  by (auto simp: js_le_def)

lemma js_gt_fin [simp]: "js_gt (Fin a) (Fin b) = (b < a)"
  by (simp add: js_gt_def)

lemma js_max_fin [simp]: "js_max (Fin a) (Fin b) = Fin (max a b)"
  by (simp add: max_def not_less[symmetric] del: not_less)

lemma js_min_fin [simp]: "js_min (Fin a) (Fin b) = Fin (min a b)"
  by (auto simp add: min_def)

lemma count_sort_key: "length (filter P (sort_key f xs)) = length (filter P xs)"
  by (simp add: filter_sort)

lemma set_values_props:
  "distinct (set_values xs) \<and> set (set_values xs) = set xs"
proof -
  have "distinct acc \<Longrightarrow>
        distinct (foldl (\<lambda>acc x. if x \<in> set acc then acc else acc @ [x]) acc xs) \<and>
        set (foldl (\<lambda>acc x. if x \<in> set acc then acc else acc @ [x]) acc xs) = set acc \<union> set xs"
    for acc :: "real list"
    by (induction xs arbitrary: acc) auto
  from this[of "[]"] show ?thesis by (simp add: set_values_def)
qed

lemma uniqueTimes_props:
  "sorted_wrt (<) (uniqueTimes ds)" "set (uniqueTimes ds) = time_months ` set ds"
  using set_values_props[of "map time_months ds"]
  by (simp_all add: uniqueTimes_def strict_sorted_iff)

lemma events_le_at_risk: "events_at ds t \<le> at_risk ds t"
proof -
  have "filter (\<lambda>d. time_months d = t \<and> event d = 1) ds
      = filter (\<lambda>d. time_months d = t \<and> event d = 1) (filter (\<lambda>d. t \<le> time_months d) ds)"
    by (auto intro: filter_cong)
  then show ?thesis unfolding events_at_def at_risk_def
    by (metis length_filter_le)
qed

lemma at_risk_pos: "t \<in> time_months ` set ds \<Longrightarrow> 0 < at_risk ds t"
  by (auto simp: at_risk_def length_greater_0_conv filter_empty_conv)

lemma events_lt_at_risk:
  assumes "t' \<in> time_months ` set ds" "t < t'"
  shows "events_at ds t < at_risk ds t"
proof -
  from assms obtain d where d: "d \<in> set ds" "t < time_months d" by auto
  have eq: "filter (\<lambda>d. time_months d = t \<and> event d = 1) ds
      = filter (\<lambda>d. time_months d = t \<and> event d = 1) (filter (\<lambda>d. t \<le> time_months d) ds)"
    by (auto intro: filter_cong)
  have "d \<in> set (filter (\<lambda>d. t \<le> time_months d) ds)" using d by simp
  moreover have "\<not> (time_months d = t \<and> event d = 1)" using d by simp
  ultimately show ?thesis unfolding events_at_def at_risk_def eq
    by (rule length_filter_less)
qed

lemma km_step_fields:
  "time (fst (km_step ds sp gv t)) = t"
  "atRisk (fst (km_step ds sp gv t)) = int (at_risk ds t) - int (events_at ds t)"
  "events (fst (km_step ds sp gv t)) = int (events_at ds t)"
  "survival (fst (km_step ds sp gv t)) = fst (snd (km_step ds sp gv t))"
  by (simp_all add: km_step_def Let_def events_at_def at_risk_def)

lemma km_point_bounds:
  assumes "0 \<le> s'" "s' \<le> 1" "0 \<le> g'"
  shows "bounds_ok \<lparr>time = t, survival = Fin s',
           lower = Fin (max 0 (s' - 1.96 * (s' * sqrt g'))),
           upper = Fin (min 1 (s' + 1.96 * (s' * sqrt g'))), atRisk = a, events = b\<rparr>"
proof -
  have "0 \<le> 1.96 * (s' * sqrt g')" using assms by (intro mult_nonneg_nonneg) auto
  then show ?thesis using assms by (simp add: bounds_ok_def)
qed

lemma km_step_lt:
  assumes "0 \<le> s" "s \<le> 1" "0 \<le> g" "events_at ds t < at_risk ds t"
  shows "\<exists>p s' g'. km_step ds (Fin s) (Fin g) t = (p, Fin s', Fin g') \<and>
           0 \<le> s' \<and> s' \<le> s \<and> 0 \<le> g' \<and> bounds_ok p"
proof -
  define e where "e = events_at ds t"
  define n where "n = at_risk ds t"
  have en: "e < n" using assms(4) by (simp add: e_def n_def)
  have ev: "length (filter (\<lambda>d. time_months d = t \<and> event d = 1) ds) = e"
    and ar: "length (filter (\<lambda>d. t \<le> time_months d) ds) = n"
    by (simp_all add: e_def n_def events_at_def at_risk_def)
  show ?thesis
  proof (cases "e = 0")
    case True
    have ng: "\<not> g < 0" using assms(3) by simp
    have "km_step ds (Fin s) (Fin g) t =
        (\<lparr>time = t, survival = Fin s, lower = Fin (max 0 (s - 1.96 * (s * sqrt g))),
          upper = Fin (min 1 (s + 1.96 * (s * sqrt g))), atRisk = int n - int e, events = int e\<rparr>,
         Fin s, Fin g)"
      unfolding km_step_def Let_def ev ar using True ng by simp
    then show ?thesis using assms(1-3) km_point_bounds[OF assms(1-3)] by auto
  next
    case False
    define k where "k = 1 - real e / real n"
    have k: "0 \<le> k" "k \<le> 1" using en by (simp_all add: k_def)
    define s' where "s' = s * k"
    define g' where "g' = g + real e / (real n * (real n - real e))"
    have s': "0 \<le> s'" "s' \<le> s" using assms(1,2) k by (auto simp: s'_def mult_left_le)
    then have s1: "s' \<le> 1" using assms(2) by simp
    have "0 \<le> real e / (real n * (real n - real e))"
      using en by (intro divide_nonneg_nonneg mult_nonneg_nonneg) auto
    then have g': "0 \<le> g'" using assms(3) by (simp add: g'_def)
    then have ng: "\<not> g' < 0" by simp
    have nz: "real n \<noteq> 0" "real n * (real n - real e) \<noteq> 0" using en by auto
    have sp: "js_mul (Fin s) (js_sub (Fin 1) (js_div (Fin (real e)) (Fin (real n)))) = Fin s'"
      using nz(1) by (simp add: s'_def k_def)
    have gp: "js_add (Fin g) (js_div (Fin (real e))
                (js_mul (Fin (real n)) (js_sub (Fin (real n)) (Fin (real e))))) = Fin g'"
      using nz(2) by (simp add: g'_def)
    have "km_step ds (Fin s) (Fin g) t =
        (\<lparr>time = t, survival = Fin s', lower = Fin (max 0 (s' - 1.96 * (s' * sqrt g'))),
          upper = Fin (min 1 (s' + 1.96 * (s' * sqrt g'))), atRisk = int n - int e, events = int e\<rparr>,
         Fin s', Fin g')"
      unfolding km_step_def Let_def ev ar sp gp using False en ng by simp
    then show ?thesis using s' g' km_point_bounds[OF s'(1) s1 g'] by auto
  qed
qed

lemma km_step_all:
  assumes "events_at ds t = at_risk ds t" "0 < at_risk ds t"
  shows "fst (snd (km_step ds (Fin s) gv t)) = Fin 0"
proof -
  have "real (at_risk ds t) \<noteq> 0" using assms(2) by simp
  then show ?thesis using assms
    unfolding km_step_def Let_def events_at_def at_risk_def
    by simp
qed

lemma km_loop_Cons:
  "km_loop ds sp gv (t # ts) =
     fst (km_step ds sp gv t)
       # km_loop ds (fst (snd (km_step ds sp gv t))) (snd (snd (km_step ds sp gv t))) ts"
  by (simp add: case_prod_unfold)

lemma km_loop_counts:
  "map (\<lambda>p. (time p, atRisk p, events p)) (km_loop ds sp gv ts) =
   map (\<lambda>t. (t, int (at_risk ds t) - int (events_at ds t), int (events_at ds t))) ts"
  by (induction ts arbitrary: sp gv) (simp_all only: km_loop.simps(1) km_loop_Cons list.map km_step_fields)

lemma km_loop_times: "map time (km_loop ds sp gv ts) = ts"
  by (induction ts arbitrary: sp gv) (simp_all only: km_loop.simps(1) km_loop_Cons list.map km_step_fields)

lemma km_loop_inv:
  assumes "sorted_wrt (<) ts" "set ts \<subseteq> time_months ` set ds" "0 \<le> s" "s \<le> 1" "0 \<le> g"
  shows "(\<forall>p\<in>set (km_loop ds (Fin s) (Fin g) ts).
            (\<exists>x. survival p = Fin x \<and> 0 \<le> x \<and> x \<le> s) \<and> (0 < atRisk p \<longrightarrow> bounds_ok p)) \<and>
         sorted_wrt (\<lambda>p q. js_le (survival q) (survival p)) (km_loop ds (Fin s) (Fin g) ts)"
  using assms
proof (induction ts arbitrary: s g)
  case Nil
  then show ?case by simp
next
  case (Cons t ts)
  have tin: "t \<in> time_months ` set ds" using Cons.prems(2) by simp
  have le: "events_at ds t \<le> at_risk ds t" by (rule events_le_at_risk)
  show ?case
  proof (cases "events_at ds t < at_risk ds t")
    case True
    from km_step_lt[OF Cons.prems(3,4,5) True]
    obtain p s' g' where st: "km_step ds (Fin s) (Fin g) t = (p, Fin s', Fin g')"
      and s': "0 \<le> s'" "s' \<le> s" and g': "0 \<le> g'" and bp: "bounds_ok p"
      by blast
    have sp: "survival p = Fin s'" using km_step_fields(4)[of ds "Fin s" "Fin g" t] st by simp
    have eq: "km_loop ds (Fin s) (Fin g) (t # ts) = p # km_loop ds (Fin s') (Fin g') ts"
      by (simp add: st)
    have s1: "s' \<le> 1" using s' Cons.prems(4) by simp
    have ih: "(\<forall>q\<in>set (km_loop ds (Fin s') (Fin g') ts).
            (\<exists>x. survival q = Fin x \<and> 0 \<le> x \<and> x \<le> s') \<and> (0 < atRisk q \<longrightarrow> bounds_ok q)) \<and>
         sorted_wrt (\<lambda>p q. js_le (survival q) (survival p)) (km_loop ds (Fin s') (Fin g') ts)"
      using Cons.IH[OF _ _ s'(1) s1 g'] Cons.prems(1,2) by simp
    have a: "\<forall>q\<in>set (km_loop ds (Fin s') (Fin g') ts). \<exists>x. survival q = Fin x \<and> 0 \<le> x \<and> x \<le> s"
      using ih s'(2) by fastforce
    have b: "\<forall>q\<in>set (km_loop ds (Fin s') (Fin g') ts). js_le (survival q) (survival p)"
      using ih sp by fastforce
    show ?thesis unfolding eq using ih a b bp sp s' by simp
  next
    case False
    then have all: "events_at ds t = at_risk ds t" using le by simp
    have pos: "0 < at_risk ds t" using tin by (rule at_risk_pos)
    have "ts = []"
    proof (rule ccontr)
      assume "ts \<noteq> []"
      then obtain t' where t': "t' \<in> set ts" by (cases ts) auto
      then have "t < t'" using Cons.prems(1) by simp
      moreover have "t' \<in> time_months ` set ds" using t' Cons.prems(2) by auto
      ultimately have "events_at ds t < at_risk ds t" by (rule events_lt_at_risk[rotated])
      then show False using False by simp
    qed
    then have eq: "km_loop ds (Fin s) (Fin g) (t # ts) = [fst (km_step ds (Fin s) (Fin g) t)]"
      by (simp add: case_prod_unfold)
    have sv: "survival (fst (km_step ds (Fin s) (Fin g) t)) = Fin 0"
      using km_step_all[OF all pos] by (simp add: km_step_fields)
    have ar: "atRisk (fst (km_step ds (Fin s) (Fin g) t)) = 0"
      using all by (simp add: km_step_fields)
    show ?thesis unfolding eq using sv ar Cons.prems(3) by simp
  qed
qed

lemma at_risk_sort [simp]: "at_risk (sort_key f ds) t = at_risk ds t"
  by (simp add: at_risk_def count_sort_key)

lemma events_at_sort [simp]: "events_at (sort_key f ds) t = events_at ds t"
  by (simp add: events_at_def count_sort_key)

lemma calculateKM_unfold:
  "calculateKM data =
     \<lparr>time = 0, survival = Fin 1, lower = Fin 1, upper = Fin 1, atRisk = int (length data), events = 0\<rparr>
     # km_loop (sort_key time_months data) (Fin 1) (Fin 0) (uniqueTimes (sort_key time_months data))"
  by (simp add: calculateKM_def Let_def)

text \<open>
  Claim C4, as amended. The points that \<open>calculateKM\<close> pushes after the first one stand
  for the distinct data times in increasing order, one point per time. The point at the
  time \<open>t\<close> has its \<open>events\<close> field equal to the number of records with time \<open>t\<close> and
  the event flag set, and its \<open>atRisk\<close> field equal to the number of records with time
  at least \<open>t\<close> minus that number of events: the code stores the subjects at risk after
  the events of \<open>t\<close>.
\<close>

theorem calculateKM_counts:
  "map (\<lambda>p. (time p, atRisk p, events p)) (tl (calculateKM data)) =
     map (\<lambda>t. (t, int (at_risk data t) - int (events_at data t), int (events_at data t)))
       (uniqueTimes (sort_key time_months data)) \<and>
   sorted_wrt (<) (uniqueTimes (sort_key time_months data)) \<and>
   set (uniqueTimes (sort_key time_months data)) = time_months ` set data"
  by (simp add: calculateKM_unfold km_loop_counts uniqueTimes_props)

text \<open>
  Claim C1, as amended. For survival records with non-negative times, the first point of
  \<open>calculateKM\<close> is \<open>(time 0, survival 1, lower 1, upper 1)\<close>; the times are
  non-decreasing, strictly increasing after the first point, and strictly increasing
  throughout when every time is positive; the survival values are non-increasing and lie
  in \<open>[0, 1]\<close>; and at every later point that leaves a subject at risk,
  \<open>0 \<le> lower \<le> survival \<le> upper \<le> 1\<close>.
\<close>

theorem calculateKM_curve:
  assumes "nonneg_times data"
  shows "hd (calculateKM data) =
           \<lparr>time = 0, survival = Fin 1, lower = Fin 1, upper = Fin 1,
            atRisk = int (length data), events = 0\<rparr> \<and>
         sorted (map time (calculateKM data)) \<and>
         sorted_wrt (<) (map time (tl (calculateKM data))) \<and>
         (positive_times data \<longrightarrow> sorted_wrt (<) (map time (calculateKM data))) \<and>
         sorted_wrt (\<lambda>p q. js_le (survival q) (survival p)) (calculateKM data) \<and>
         (\<forall>p\<in>set (calculateKM data). js_le (Fin 0) (survival p) \<and> js_le (survival p) (Fin 1)) \<and>
         (\<forall>p\<in>set (tl (calculateKM data)). 0 < atRisk p \<longrightarrow> bounds_ok p)"
proof -
  let ?ds = "sort_key time_months data"
  let ?ts = "uniqueTimes ?ds"
  let ?rest = "km_loop ?ds (Fin 1) (Fin 0) ?ts"
  have ts: "sorted_wrt (<) ?ts" "set ?ts = time_months ` set data"
    by (simp_all add: uniqueTimes_props)
  have sub: "set ?ts \<subseteq> time_months ` set ?ds" using ts(2) by simp
  have inv: "(\<forall>p\<in>set ?rest.
            (\<exists>x. survival p = Fin x \<and> 0 \<le> x \<and> x \<le> 1) \<and> (0 < atRisk p \<longrightarrow> bounds_ok p)) \<and>
         sorted_wrt (\<lambda>p q. js_le (survival q) (survival p)) ?rest"
    using km_loop_inv[OF ts(1) sub, of 1 0] by simp
  have tm: "map time ?rest = ?ts" by (rule km_loop_times)
  have nn: "\<forall>t\<in>set ?ts. 0 \<le> t" using assms ts(2) by (auto simp: nonneg_times_def list_all_iff)
  have c1: "hd (calculateKM data) =
           \<lparr>time = 0, survival = Fin 1, lower = Fin 1, upper = Fin 1,
            atRisk = int (length data), events = 0\<rparr>"
    by (simp add: calculateKM_unfold)
  have c2: "sorted (map time (calculateKM data))"
    using nn ts(1) by (simp add: calculateKM_unfold tm strict_sorted_iff)
  have c3: "sorted_wrt (<) (map time (tl (calculateKM data)))"
    using ts(1) by (simp add: calculateKM_unfold tm)
  have c4: "positive_times data \<longrightarrow> sorted_wrt (<) (map time (calculateKM data))"
    using ts by (auto simp: calculateKM_unfold tm positive_times_def list_all_iff)
  have surv: "\<forall>p\<in>set ?rest. js_le (Fin 0) (survival p) \<and> js_le (survival p) (Fin 1)"
    using inv by fastforce
  have c5: "sorted_wrt (\<lambda>p q. js_le (survival q) (survival p)) (calculateKM data)"
    using inv surv by (simp add: calculateKM_unfold)
  have c6: "\<forall>p\<in>set (calculateKM data). js_le (Fin 0) (survival p) \<and> js_le (survival p) (Fin 1)"
    using surv by (simp add: calculateKM_unfold)
  have c7: "\<forall>p\<in>set (tl (calculateKM data)). 0 < atRisk p \<longrightarrow> bounds_ok p"
    using inv by (simp add: calculateKM_unfold)
  from c1 c2 c3 c4 c5 c6 c7 show ?thesis by blast
qed

lemma km_example_zero_time:
  "calculateKM [\<lparr>time_months = 0, event = 0\<rparr>, \<lparr>time_months = 5, event = 1\<rparr>] =
     [\<lparr>time = 0, survival = Fin 1, lower = Fin 1, upper = Fin 1, atRisk = 2, events = 0\<rparr>,
      \<lparr>time = 0, survival = Fin 1, lower = Fin 1, upper = Fin 1, atRisk = 2, events = 0\<rparr>,
      \<lparr>time = 5, survival = Fin 0, lower = NaN, upper = NaN, atRisk = 0, events = 1\<rparr>]"
  by (simp add: calculateKM_def uniqueTimes_def set_values_def km_step_def Let_def inf_times_def js_sub_def)

text \<open>
  Claim C1 as stated fails on a censored record at time 0 followed by an event at time 5:
  the time 0 occurs twice in the curve, and at time 5, where the last subject at risk has
  the event, \<open>lower\<close> and \<open>upper\<close> are NaN, so \<open>lower \<le> survival\<close> is false.
\<close>

theorem calculateKM_curve_counterexample:
  "nonneg_times [\<lparr>time_months = 0, event = 0\<rparr>, \<lparr>time_months = 5, event = 1\<rparr>] \<and>
   \<not> sorted_wrt (<) (map time (calculateKM [\<lparr>time_months = 0, event = 0\<rparr>, \<lparr>time_months = 5, event = 1\<rparr>])) \<and>
   lower (calculateKM [\<lparr>time_months = 0, event = 0\<rparr>, \<lparr>time_months = 5, event = 1\<rparr>] ! 2) = NaN \<and>
   upper (calculateKM [\<lparr>time_months = 0, event = 0\<rparr>, \<lparr>time_months = 5, event = 1\<rparr>] ! 2) = NaN \<and>
   \<not> js_le (lower (calculateKM [\<lparr>time_months = 0, event = 0\<rparr>, \<lparr>time_months = 5, event = 1\<rparr>] ! 2))
            (survival (calculateKM [\<lparr>time_months = 0, event = 0\<rparr>, \<lparr>time_months = 5, event = 1\<rparr>] ! 2))"
  unfolding km_example_zero_time by (simp add: nonneg_times_def js_le_def)

lemma km_example_scenario2:
  "calculateKM [\<lparr>time_months = 5, event = 1\<rparr>, \<lparr>time_months = 10, event = 0\<rparr>, \<lparr>time_months = 12, event = 1\<rparr>] =
     [\<lparr>time = 0, survival = Fin 1, lower = Fin 1, upper = Fin 1, atRisk = 3, events = 0\<rparr>,
      \<lparr>time = 5, survival = Fin (2 / 3), lower = Fin (max 0 (2 / 3 - 1.96 * (2 / 3 * sqrt (1 / 6)))),
        upper = Fin (min 1 (2 / 3 + 1.96 * (2 / 3 * sqrt (1 / 6)))), atRisk = 2, events = 1\<rparr>,
      \<lparr>time = 10, survival = Fin (2 / 3), lower = Fin (max 0 (2 / 3 - 1.96 * (2 / 3 * sqrt (1 / 6)))),
        upper = Fin (min 1 (2 / 3 + 1.96 * (2 / 3 * sqrt (1 / 6)))), atRisk = 2, events = 0\<rparr>,
      \<lparr>time = 12, survival = Fin 0, lower = NaN, upper = NaN, atRisk = 0, events = 1\<rparr>]"
  by (simp add: calculateKM_def uniqueTimes_def set_values_def km_step_def Let_def inf_times_def js_sub_def)

theorem calculateKM_curve_witness:
  "nonneg_times [\<lparr>time_months = 5, event = 1\<rparr>, \<lparr>time_months = 10, event = 0\<rparr>, \<lparr>time_months = 12, event = 1\<rparr>] \<and>
   positive_times [\<lparr>time_months = 5, event = 1\<rparr>, \<lparr>time_months = 10, event = 0\<rparr>, \<lparr>time_months = 12, event = 1\<rparr>] \<and>
   sorted_wrt (<) (map time (calculateKM [\<lparr>time_months = 5, event = 1\<rparr>, \<lparr>time_months = 10, event = 0\<rparr>, \<lparr>time_months = 12, event = 1\<rparr>])) \<and>
   0 < atRisk (calculateKM [\<lparr>time_months = 5, event = 1\<rparr>, \<lparr>time_months = 10, event = 0\<rparr>, \<lparr>time_months = 12, event = 1\<rparr>] ! 1) \<and>
   bounds_ok (calculateKM [\<lparr>time_months = 5, event = 1\<rparr>, \<lparr>time_months = 10, event = 0\<rparr>, \<lparr>time_months = 12, event = 1\<rparr>] ! 1)"
proof -
  let ?d = "[\<lparr>time_months = 5, event = 1\<rparr>, \<lparr>time_months = 10, event = 0\<rparr>, \<lparr>time_months = 12, event = 1\<rparr>]"
  have h: "nonneg_times ?d" "positive_times ?d" by (simp_all add: nonneg_times_def positive_times_def)
  have m: "calculateKM ?d ! 1 \<in> set (tl (calculateKM ?d))" "0 < atRisk (calculateKM ?d ! 1)"
    unfolding km_example_scenario2 by simp_all
  from calculateKM_curve[OF h(1)] h m show ?thesis by blast
qed

text \<open>
  Claim C4 as stated fails: for the single record with time 5 and an event, the point at
  time 5 has \<open>atRisk = 0\<close> while one record has a time of at least 5.
\<close>

theorem calculateKM_counts_counterexample:
  "time (calculateKM [\<lparr>time_months = 5, event = 1\<rparr>] ! 1) = 5 \<and>
   atRisk (calculateKM [\<lparr>time_months = 5, event = 1\<rparr>] ! 1) = 0 \<and>
   at_risk [\<lparr>time_months = 5, event = 1\<rparr>] 5 = 1"
  by (simp add: calculateKM_def uniqueTimes_def set_values_def km_step_def Let_def inf_times_def js_sub_def at_risk_def)

theorem calculateKM_counts_witness:
  "map (\<lambda>p. (time p, atRisk p, events p))
     (tl (calculateKM [\<lparr>time_months = 5, event = 1\<rparr>, \<lparr>time_months = 10, event = 0\<rparr>, \<lparr>time_months = 12, event = 1\<rparr>])) =
   [(5, 2, 1), (10, 2, 0), (12, 0, 1)]"
proof -
  let ?d = "[\<lparr>time_months = 5, event = 1\<rparr>, \<lparr>time_months = 10, event = 0\<rparr>, \<lparr>time_months = 12, event = 1\<rparr>]"
  have u: "uniqueTimes (sort_key time_months ?d) = [5, 10, 12]"
    by (simp add: uniqueTimes_def set_values_def)
  show ?thesis using calculateKM_counts[of ?d] unfolding u
    by (simp add: at_risk_def events_at_def)
qed

text \<open>The restriction time 0 gives 0 on every curve of \<open>calculateKM\<close>.\<close>

lemma calculateRMST_zero: "calculateRMST (calculateKM data) 0 = Fin 0"
  by (simp add: calculateRMST_def calculateKM_def Let_def)

lemma km_single_censored:
  "calculateKM [\<lparr>time_months = 10, event = 0\<rparr>] =
     [\<lparr>time = 0, survival = Fin 1, lower = Fin 1, upper = Fin 1, atRisk = 1, events = 0\<rparr>,
      \<lparr>time = 10, survival = Fin 1, lower = Fin 1, upper = Fin 1, atRisk = 1, events = 0\<rparr>]"
  by (simp add: calculateKM_def uniqueTimes_def set_values_def km_step_def Let_def js_sub_def)

text \<open>
  Claim C6 at a failing input. On the curve of one record censored at time 10 the loop of
  \<open>calculateRMST\<close> breaks at the restriction time 10 with \<open>prevTime\<close> still 0, so the
  final rectangle is added on top of the trapezoid: the result is 20 for the restriction
  time 10 and 11 for the restriction time 11.
\<close>

theorem calculateRMST_not_monotone:
  "calculateRMST (calculateKM [\<lparr>time_months = 10, event = 0\<rparr>]) 10 = Fin 20 \<and>
   calculateRMST (calculateKM [\<lparr>time_months = 10, event = 0\<rparr>]) 11 = Fin 11"
  unfolding km_single_censored by (simp add: calculateRMST_def Let_def)

lemma event_count_le: "event_count arm \<le> length arm"
  by (simp add: event_count_def)

text \<open>
  Claim C2, as amended. \<open>calculateHR\<close> has no check of the event counts. When an arm has
  zero events the result holds NaN in at least one confidence bound: with zero events
  in a non-empty arm A only, \<open>hr = 0\<close>, \<open>ciLower = 0\<close> and \<open>ciUpper\<close> is NaN; with zero
  events in a non-empty arm B only, \<open>hr\<close> and \<open>ciUpper\<close> are Infinity and \<open>ciLower\<close> is
  NaN; with zero events in both arms all three are NaN.
\<close>

theorem calculateHR_zero_events:
  "(event_count armA = 0 \<or> event_count armB = 0 \<longrightarrow>
      ciLower (calculateHR armA armB) = NaN \<or> ciUpper (calculateHR armA armB) = NaN) \<and>
   (event_count armA = 0 \<and> 0 < event_count armB \<and> armA \<noteq> [] \<longrightarrow>
      hr (calculateHR armA armB) = Fin 0 \<and> ciLower (calculateHR armA armB) = Fin 0 \<and>
      ciUpper (calculateHR armA armB) = NaN) \<and>
   (0 < event_count armA \<and> event_count armB = 0 \<and> armB \<noteq> [] \<longrightarrow>
      hr (calculateHR armA armB) = PInf \<and> ciLower (calculateHR armA armB) = NaN \<and>
      ciUpper (calculateHR armA armB) = PInf) \<and>
   (event_count armA = 0 \<and> event_count armB = 0 \<longrightarrow>
      hr (calculateHR armA armB) = NaN \<and> ciLower (calculateHR armA armB) = NaN \<and>
      ciUpper (calculateHR armA armB) = NaN)"
proof -
  define eA where "eA = event_count armA"
  define eB where "eB = event_count armB"
  have le: "eA \<le> length armA" "eB \<le> length armB"
    by (simp_all add: eA_def eB_def event_count_le)
  have ev: "length (filter (\<lambda>d. event d = 1) armA) = eA" "length (filter (\<lambda>d. event d = 1) armB) = eB"
    by (simp_all add: eA_def eB_def event_count_def)
  show ?thesis
    unfolding eA_def[symmetric] eB_def[symmetric] calculateHR_def Let_def ev
    using le by (auto simp: inf_times_def)
qed

text \<open>
  Claim C2 as stated fails: with no event in arm A and one in arm B the result carries
  \<open>ciUpper = NaN\<close> next to \<open>hr = 0\<close> and \<open>ciLower = 0\<close>, and nothing signals it.
\<close>

theorem calculateHR_zero_events_counterexample:
  "event_count [\<lparr>time_months = 3, event = 0\<rparr>] = 0 \<and>
   hr (calculateHR [\<lparr>time_months = 3, event = 0\<rparr>] [\<lparr>time_months = 4, event = 1\<rparr>]) = Fin 0 \<and>
   ciLower (calculateHR [\<lparr>time_months = 3, event = 0\<rparr>] [\<lparr>time_months = 4, event = 1\<rparr>]) = Fin 0 \<and>
   ciUpper (calculateHR [\<lparr>time_months = 3, event = 0\<rparr>] [\<lparr>time_months = 4, event = 1\<rparr>]) = NaN"
  by (simp add: calculateHR_def Let_def inf_times_def event_count_def)

theorem calculateHR_zero_events_witness:
  "event_count [\<lparr>time_months = 3, event = 1\<rparr>] = 1 \<and> event_count [\<lparr>time_months = 4, event = 0\<rparr>] = 0 \<and>
   hr (calculateHR [\<lparr>time_months = 3, event = 1\<rparr>] [\<lparr>time_months = 4, event = 0\<rparr>]) = PInf \<and>
   ciLower (calculateHR [\<lparr>time_months = 3, event = 1\<rparr>] [\<lparr>time_months = 4, event = 0\<rparr>]) = NaN \<and>
   ciUpper (calculateHR [\<lparr>time_months = 3, event = 1\<rparr>] [\<lparr>time_months = 4, event = 0\<rparr>]) = PInf"
proof -
  have h: "event_count [\<lparr>time_months = 3, event = 1\<rparr>] = 1" "event_count [\<lparr>time_months = 4, event = 0\<rparr>] = 0"
    by (simp_all add: event_count_def)
  from calculateHR_zero_events[of "[\<lparr>time_months = 3, event = 1\<rparr>]" "[\<lparr>time_months = 4, event = 0\<rparr>]"] h
  show ?thesis by simp
qed

section \<open>Properties of the diagnostic metrics\<close>

lemma pos_count_Cons:
  "pos_count (p # ps) = (if disease_status p = ''Positive'' then Suc (pos_count ps) else pos_count ps)"
  by (simp add: pos_count_def)

lemma nonpos_count_Cons:
  "nonpos_count (p # ps) = (if disease_status p = ''Positive'' then nonpos_count ps else Suc (nonpos_count ps))"
  by (simp add: nonpos_count_def)

lemma pos_count_Nil [simp]: "pos_count [] = 0" "nonpos_count [] = 0"
  by (simp_all add: pos_count_def nonpos_count_def)

lemma counts_sort_desc [simp]:
  "pos_count (sort_desc data) = pos_count data"
  "neg_count (sort_desc data) = neg_count data"
  "nonpos_count (sort_desc data) = nonpos_count data"
  by (simp_all add: pos_count_def neg_count_def nonpos_count_def sort_desc_def count_sort_key)

lemma roc_sweep_pos:
  "disease_status p = ''Positive'' \<Longrightarrow> 0 < P \<Longrightarrow> 0 < N \<Longrightarrow>
   roc_sweep P N tp fp (p # ps) =
     \<lparr>fpr = Fin (real fp / real N), tpr = Fin ((real tp + 1) / real P),
      threshold = predicted_probability p\<rparr> # roc_sweep P N (Suc tp) fp ps"
  by (simp add: Let_def add.commute)

lemma roc_sweep_neg:
  "disease_status p \<noteq> ''Positive'' \<Longrightarrow> 0 < P \<Longrightarrow> 0 < N \<Longrightarrow>
   roc_sweep P N tp fp (p # ps) =
     \<lparr>fpr = Fin ((real fp + 1) / real N), tpr = Fin (real tp / real P),
      threshold = predicted_probability p\<rparr> # roc_sweep P N tp (Suc fp) ps"
  by (simp add: Let_def add.commute)

lemma gauge_pos:
  "disease_status p = ''Positive'' \<Longrightarrow> 0 < P \<Longrightarrow> 0 < N \<Longrightarrow>
   gauge_auc_loop P N tp fp (Fin a) (Fin f) (p # ps) =
     gauge_auc_loop P N (Suc tp) fp (Fin (a + (real tp + 1) / real P * (real fp / real N - f)))
       (Fin (real fp / real N)) ps"
  by (simp add: Let_def add.commute)

lemma gauge_neg:
  "disease_status p \<noteq> ''Positive'' \<Longrightarrow> 0 < P \<Longrightarrow> 0 < N \<Longrightarrow>
   gauge_auc_loop P N tp fp (Fin a) (Fin f) (p # ps) =
     gauge_auc_loop P N tp (Suc fp) (Fin (a + real tp / real P * ((real fp + 1) / real N - f)))
       (Fin ((real fp + 1) / real N)) ps"
  by (simp add: Let_def add.commute)

lemma auc_loop_step:
  "fpr prev = Fin f \<Longrightarrow> tpr prev = Fin t \<Longrightarrow>
   auc_loop (Fin a) prev (\<lparr>fpr = Fin f', tpr = Fin t', threshold = th\<rparr> # pts) =
     auc_loop (Fin (a + (f' - f) * ((t' + t) / 2))) \<lparr>fpr = Fin f', tpr = Fin t', threshold = th\<rparr> pts"
  by (simp add: Let_def)

lemma auc_eq_gauge:
  assumes "0 < P" "0 < N" "fpr prev = Fin (real fp / real N)" "tpr prev = Fin (real tp / real P)"
  shows "auc_loop (Fin a) prev (roc_sweep P N tp fp ps) =
         gauge_auc_loop P N tp fp (Fin a) (Fin (real fp / real N)) ps"
  using assms(3,4)
proof (induction ps arbitrary: a prev tp fp)
  case Nil
  then show ?case by simp
next
  case (Cons p ps)
  show ?case
  proof (cases "disease_status p = ''Positive''")
    case True
    show ?thesis
      unfolding roc_sweep_pos[OF True assms(1,2)] gauge_pos[OF True assms(1,2)]
        auc_loop_step[OF Cons.prems]
      using Cons.IH[of "\<lparr>fpr = Fin (real fp / real N), tpr = Fin ((real tp + 1) / real P),
          threshold = predicted_probability p\<rparr>" fp "Suc tp" a]
      by (simp add: add.commute)
  next
    case False
    have eq: "((real fp + 1) / real N - real fp / real N) * ((real tp / real P + real tp / real P) / 2)
        = real tp / real P * ((real fp + 1) / real N - real fp / real N)"
      by (simp add: algebra_simps)
    show ?thesis
      unfolding roc_sweep_neg[OF False assms(1,2)] gauge_neg[OF False assms(1,2)]
        auc_loop_step[OF Cons.prems] eq
      using Cons.IH[of "\<lparr>fpr = Fin ((real fp + 1) / real N), tpr = Fin (real tp / real P),
          threshold = predicted_probability p\<rparr>" "Suc fp" tp]
      by (simp add: add.commute)
  qed
qed

lemma auc_loop_bound:
  assumes "0 < P" "0 < N" "fpr prev = Fin (real fp / real N)" "tpr prev = Fin (real tp / real P)"
  shows "\<exists>r. auc_loop (Fin a) prev (roc_sweep P N tp fp ps) = Fin r \<and> a \<le> r \<and>
             r \<le> a + (real tp + real (pos_count ps)) / real P * (real (nonpos_count ps) / real N)"
  using assms(3,4)
proof (induction ps arbitrary: a prev tp fp)
  case Nil
  then show ?case by simp
next
  case (Cons p ps)
  show ?case
  proof (cases "disease_status p = ''Positive''")
    case True
    let ?pt = "\<lparr>fpr = Fin (real fp / real N), tpr = Fin ((real tp + 1) / real P),
          threshold = predicted_probability p\<rparr>"
    from Cons.IH[of ?pt fp "Suc tp" a]
    obtain r where r: "auc_loop (Fin a) ?pt (roc_sweep P N (Suc tp) fp ps) = Fin r" "a \<le> r"
      "r \<le> a + (real (Suc tp) + real (pos_count ps)) / real P * (real (nonpos_count ps) / real N)"
      by (auto simp: add.commute)
    show ?thesis
      unfolding roc_sweep_pos[OF True assms(1,2)] auc_loop_step[OF Cons.prems]
      using r True by (simp add: pos_count_Cons nonpos_count_Cons algebra_simps)
  next
    case False
    let ?pt = "\<lparr>fpr = Fin ((real fp + 1) / real N), tpr = Fin (real tp / real P),
          threshold = predicted_probability p\<rparr>"
    define a' where "a' = a + ((real fp + 1) / real N - real fp / real N) * ((real tp / real P + real tp / real P) / 2)"
    have a': "a' = a + real tp / real P * (1 / real N)"
      using assms(1,2) by (simp add: a'_def field_simps)
    from Cons.IH[of ?pt "Suc fp" tp a']
    obtain r where r: "auc_loop (Fin a') ?pt (roc_sweep P N tp (Suc fp) ps) = Fin r" "a' \<le> r"
      "r \<le> a' + (real tp + real (pos_count ps)) / real P * (real (nonpos_count ps) / real N)"
      by (auto simp: add.commute)
    have "0 \<le> real tp / real P * (1 / real N)" by simp
    then have lo: "a \<le> r" using r(2) a' by linarith
    have "real tp / real P * (1 / real N) \<le> (real tp + real (pos_count ps)) / real P * (1 / real N)"
      by (intro mult_right_mono divide_right_mono) auto
    moreover have "(real tp + real (pos_count ps)) / real P * ((real (nonpos_count ps) + 1) / real N)
        = (real tp + real (pos_count ps)) / real P * (real (nonpos_count ps) / real N)
          + (real tp + real (pos_count ps)) / real P * (1 / real N)"
      by (simp add: add_divide_distrib distrib_left)
    ultimately have hi: "r \<le> a + (real tp + real (pos_count ps)) / real P * ((real (nonpos_count ps) + 1) / real N)"
      using r(3) a' by linarith
    show ?thesis
      unfolding roc_sweep_neg[OF False assms(1,2)] auc_loop_step[OF Cons.prems] a'_def[symmetric]
      using r(1) lo hi False by (simp add: pos_count_Cons nonpos_count_Cons add.commute)
  qed
qed

lemma auc_unfold:
  "auc (createROCCurve data) =
     auc_loop (Fin 0) \<lparr>fpr = Fin 0, tpr = Fin 0, threshold = 1\<rparr>
       (roc_sweep (pos_count data) (neg_count data) 0 0 (sort_desc data))"
  using counts_sort_desc(1,2)[of data]
  by (simp add: createROCCurve_def Let_def pos_count_def neg_count_def)

text \<open>
  The two AUC computations agree whenever both counts are positive: each step of the
  sweep moves one patient, so either the width of the trapezoid is zero or its two
  heights are equal.
\<close>

lemma auc_equals_gauge_general:
  assumes "0 < pos_count data" "0 < neg_count data"
  shows "auc (createROCCurve data) = createDiagnosticGauges_auc data"
    and "\<exists>r. auc (createROCCurve data) = Fin r"
proof -
  let ?o = "\<lparr>fpr = Fin 0, tpr = Fin 0, threshold = 1\<rparr>"
  have "auc_loop (Fin 0) ?o (roc_sweep (pos_count data) (neg_count data) 0 0 (sort_desc data)) =
        gauge_auc_loop (pos_count data) (neg_count data) 0 0 (Fin 0)
          (Fin (real 0 / real (neg_count data))) (sort_desc data)"
    by (rule auc_eq_gauge[OF assms]) simp_all
  then show "auc (createROCCurve data) = createDiagnosticGauges_auc data"
    unfolding auc_unfold by (simp add: createDiagnosticGauges_auc_def Let_def pos_count_def neg_count_def)
  from auc_loop_bound[OF assms, of ?o 0 0 0 "sort_desc data"]
  show "\<exists>r. auc (createROCCurve data) = Fin r" unfolding auc_unfold by auto
qed

text \<open>
  Claim C10. For a data set with at least one positive and at least one negative patient
  and pairwise distinct scores, the trapezoidal AUC of \<open>createROCCurve\<close> and the
  rectangle-rule AUC of \<open>createDiagnosticGauges\<close> are equal numbers (equal under
  \<open>===\<close>, hence neither is NaN).
\<close>

theorem roc_auc_equals_gauge_auc:
  assumes "0 < pos_count data" and "0 < neg_count data"
    and "distinct (map predicted_probability data)"
  shows "js_eq (auc (createROCCurve data)) (createDiagnosticGauges_auc data)"
proof -
  from auc_equals_gauge_general[OF assms(1,2)]
  obtain r where "auc (createROCCurve data) = Fin r" "createDiagnosticGauges_auc data = Fin r"
    by auto
  then show ?thesis by simp
qed

theorem roc_auc_equals_gauge_auc_witness:
  "0 < pos_count [\<lparr>disease_status = ''Positive'', predicted_probability = 0.9\<rparr>,
                  \<lparr>disease_status = ''Negative'', predicted_probability = 0.2\<rparr>,
                  \<lparr>disease_status = ''Positive'', predicted_probability = 0.4\<rparr>] \<and>
   0 < neg_count [\<lparr>disease_status = ''Positive'', predicted_probability = 0.9\<rparr>,
                  \<lparr>disease_status = ''Negative'', predicted_probability = 0.2\<rparr>,
                  \<lparr>disease_status = ''Positive'', predicted_probability = 0.4\<rparr>] \<and>
   js_eq (auc (createROCCurve [\<lparr>disease_status = ''Positive'', predicted_probability = 0.9\<rparr>,
                  \<lparr>disease_status = ''Negative'', predicted_probability = 0.2\<rparr>,
                  \<lparr>disease_status = ''Positive'', predicted_probability = 0.4\<rparr>]))
         (createDiagnosticGauges_auc [\<lparr>disease_status = ''Positive'', predicted_probability = 0.9\<rparr>,
                  \<lparr>disease_status = ''Negative'', predicted_probability = 0.2\<rparr>,
                  \<lparr>disease_status = ''Positive'', predicted_probability = 0.4\<rparr>])"
proof -
  let ?d = "[\<lparr>disease_status = ''Positive'', predicted_probability = 0.9\<rparr>,
             \<lparr>disease_status = ''Negative'', predicted_probability = 0.2\<rparr>,
             \<lparr>disease_status = ''Positive'', predicted_probability = 0.4\<rparr>]"
  have h: "0 < pos_count ?d" "0 < neg_count ?d" "distinct (map predicted_probability ?d)"
    by (simp_all add: pos_count_def neg_count_def)
  from roc_auc_equals_gauge_auc[OF h] h(1,2) show ?thesis by blast
qed

lemma pr_loop_Cons:
  "pr_loop P tp fp pr a (p # ps) =
     (fst (pr_step P tp fp pr a p)
        # fst (pr_loop P (fst (snd (pr_step P tp fp pr a p)))
                 (fst (snd (snd (pr_step P tp fp pr a p))))
                 (fst (snd (snd (snd (pr_step P tp fp pr a p)))))
                 (snd (snd (snd (snd (pr_step P tp fp pr a p))))) ps),
      snd (pr_loop P (fst (snd (pr_step P tp fp pr a p)))
                 (fst (snd (snd (pr_step P tp fp pr a p))))
                 (fst (snd (snd (snd (pr_step P tp fp pr a p)))))
                 (snd (snd (snd (snd (pr_step P tp fp pr a p))))) ps))"
  by (simp add: case_prod_unfold)

lemma pr_step_pos:
  assumes "0 < P" "disease_status p = ''Positive''"
  shows "pr_step P tp fp (Fin (real tp / real P)) (Fin a) p =
     (\<lparr>precision = Fin ((real tp + 1) / (real tp + 1 + real fp)), recall = Fin ((real tp + 1) / real P),
       pr_threshold = predicted_probability p\<rparr>,
      Suc tp, fp, Fin ((real tp + 1) / real P),
      Fin (a + (real tp + 1) / (real tp + 1 + real fp) * ((real tp + 1) / real P - real tp / real P)))"
proof -
  have nz: "real tp + 1 + real fp \<noteq> 0" by (smt (verit) of_nat_0_le_iff)
  have gr: "real tp / real P < (real tp + 1) / real P"
    using assms(1) by (simp add: divide_strict_right_mono)
  show ?thesis using assms nz gr
    by (simp add: pr_step_def Let_def add.commute add.left_commute)
qed

lemma pr_step_nonpos:
  assumes "0 < P" "disease_status p \<noteq> ''Positive''"
  shows "pr_step P tp fp (Fin (real tp / real P)) (Fin a) p =
     (\<lparr>precision = Fin (real tp / (real tp + (real fp + 1))), recall = Fin (real tp / real P),
       pr_threshold = predicted_probability p\<rparr>,
      tp, Suc fp, Fin (real tp / real P), Fin a)"
proof -
  have nz: "real tp + (real fp + 1) \<noteq> 0" by (smt (verit) of_nat_0_le_iff)
  show ?thesis using assms nz
    by (simp add: pr_step_def Let_def add.commute add.left_commute)
qed

lemma pr_loop_bound:
  assumes "0 < P"
  shows "\<exists>r. snd (pr_loop P tp fp (Fin (real tp / real P)) (Fin a) ps) = Fin r \<and> a \<le> r \<and>
             r \<le> a + real (pos_count ps) / real P"
proof (induction ps arbitrary: tp fp a)
  case Nil
  then show ?case by simp
next
  case (Cons p ps)
  show ?case
  proof (cases "disease_status p = ''Positive''")
    case True
    define c where "c = (real tp + 1) / (real tp + 1 + real fp)"
    have c: "0 \<le> c" "c \<le> 1" by (simp_all add: c_def)
    define a' where "a' = a + c * ((real tp + 1) / real P - real tp / real P)"
    have d: "(real tp + 1) / real P - real tp / real P = 1 / real P"
      by (simp add: diff_divide_distrib[symmetric])
    have "0 \<le> c * (1 / real P)" using c(1) by simp
    moreover have "c * (1 / real P) \<le> 1 * (1 / real P)" using c(2) by (intro mult_right_mono) auto
    ultimately have a': "a \<le> a'" "a' \<le> a + 1 / real P" unfolding a'_def d by simp_all
    from Cons.IH[of "Suc tp" fp a']
    obtain r where r: "snd (pr_loop P (Suc tp) fp (Fin ((real tp + 1) / real P)) (Fin a') ps) = Fin r"
      "a' \<le> r" "r \<le> a' + real (pos_count ps) / real P"
      by (auto simp: add.commute)
    have "real (pos_count (p # ps)) / real P = 1 / real P + real (pos_count ps) / real P"
      using True by (simp add: pos_count_Cons add_divide_distrib)
    then have "r \<le> a + real (pos_count (p # ps)) / real P" using r(3) a'(2) by linarith
    moreover have "a \<le> r" using r(2) a'(1) by linarith
    ultimately show ?thesis
      unfolding pr_loop_Cons pr_step_pos[OF assms True] c_def[symmetric] a'_def[symmetric]
      using r(1) by simp
  next
    case False
    from Cons.IH[of tp "Suc fp" a]
    obtain r where r: "snd (pr_loop P tp (Suc fp) (Fin (real tp / real P)) (Fin a) ps) = Fin r"
      "a \<le> r" "r \<le> a + real (pos_count ps) / real P"
      by auto
    show ?thesis
      unfolding pr_loop_Cons pr_step_nonpos[OF assms False]
      using r False by (simp add: pos_count_Cons)
  qed
qed

lemma pr_loop_no_positive:
  assumes "\<forall>p\<in>set ps. disease_status p \<noteq> ''Positive''"
  shows "pr_loop 0 0 fp (Fin 0) (Fin 0) ps =
     (map (\<lambda>p. \<lparr>precision = Fin 0, recall = NaN, pr_threshold = predicted_probability p\<rparr>) ps, Fin 0)"
  using assms
proof (induction ps arbitrary: fp)
  case Nil
  then show ?case by simp
next
  case (Cons p ps)
  have np: "disease_status p \<noteq> ''Positive''" using Cons.prems by simp
  have nz: "real fp + 1 \<noteq> 0" by (smt (verit) of_nat_0_le_iff)
  have st: "pr_step 0 0 fp (Fin 0) (Fin 0) p =
      (\<lparr>precision = Fin 0, recall = NaN, pr_threshold = predicted_probability p\<rparr>,
       0, Suc fp, Fin 0, Fin 0)"
    using np nz by (simp add: pr_step_def Let_def js_gt_def add.commute)
  show ?case unfolding pr_loop_Cons st using Cons.IH[of "Suc fp"] Cons.prems by simp
qed

lemma pr_unfold:
  "ap (createPRCurve data) = snd (pr_loop (pos_count data) 0 0 (Fin 0) (Fin 0) (sort_desc data))"
  "tl (prPoints (createPRCurve data)) = fst (pr_loop (pos_count data) 0 0 (Fin 0) (Fin 0) (sort_desc data))"
  using counts_sort_desc(1)[of data]
  by (simp_all add: createPRCurve_def Let_def pos_count_def)

text \<open>
  Claim C8, as amended. With at least one positive patient the Average Precision that
  \<open>createPRCurve\<close> accumulates is a number in \<open>[0, 1]\<close>. With no positive patient the
  division \<open>tp / totalPos\<close> is \<open>0 / 0\<close> at every step of the sweep: every pushed point has
  \<open>recall = NaN\<close> and \<open>precision = 0\<close>, the comparison \<open>recall > prevRecall\<close> is never
  true, and the Average Precision stays 0.
\<close>

theorem createPRCurve_ap:
  "(0 < pos_count data \<longrightarrow> (\<exists>r. ap (createPRCurve data) = Fin r \<and> 0 \<le> r \<and> r \<le> 1)) \<and>
   (pos_count data = 0 \<longrightarrow>
      ap (createPRCurve data) = Fin 0 \<and>
      tl (prPoints (createPRCurve data)) =
        map (\<lambda>p. \<lparr>precision = Fin 0, recall = NaN, pr_threshold = predicted_probability p\<rparr>)
          (sort_desc data))"
proof (intro conjI impI)
  assume pos: "0 < pos_count data"
  from pr_loop_bound[OF pos, of 0 0 0 "sort_desc data"]
  obtain r where r: "snd (pr_loop (pos_count data) 0 0 (Fin 0) (Fin 0) (sort_desc data)) = Fin r"
    "0 \<le> r" "r \<le> real (pos_count data) / real (pos_count data)"
    by auto
  have "real (pos_count data) / real (pos_count data) = 1" using pos by simp
  then show "\<exists>r. ap (createPRCurve data) = Fin r \<and> 0 \<le> r \<and> r \<le> 1"
    using r unfolding pr_unfold by auto
next
  assume z: "pos_count data = 0"
  then have "pos_count (sort_desc data) = 0" by simp
  then have np: "\<forall>p\<in>set (sort_desc data). disease_status p \<noteq> ''Positive''"
    by (simp add: pos_count_def filter_empty_conv)
  show "ap (createPRCurve data) = Fin 0"
    unfolding pr_unfold z pr_loop_no_positive[OF np] by simp
  show "tl (prPoints (createPRCurve data)) =
        map (\<lambda>p. \<lparr>precision = Fin 0, recall = NaN, pr_threshold = predicted_probability p\<rparr>)
          (sort_desc data)"
    unfolding pr_unfold z pr_loop_no_positive[OF np] by simp
qed

text \<open>
  Claim C8 as stated fails in its second part: on a single negative patient the sweep
  divides 0 by 0 unguarded and the pushed point has \<open>recall = NaN\<close>.
\<close>

theorem createPRCurve_ap_counterexample:
  "pos_count [\<lparr>disease_status = ''Negative'', predicted_probability = 0.5\<rparr>] = 0 \<and>
   recall (prPoints (createPRCurve [\<lparr>disease_status = ''Negative'', predicted_probability = 0.5\<rparr>]) ! 1) = NaN \<and>
   ap (createPRCurve [\<lparr>disease_status = ''Negative'', predicted_probability = 0.5\<rparr>]) = Fin 0"
  by (simp add: createPRCurve_def sort_desc_def pr_step_def Let_def pos_count_def js_gt_def)

theorem createPRCurve_ap_witness:
  "0 < pos_count [\<lparr>disease_status = ''Positive'', predicted_probability = 0.9\<rparr>,
                  \<lparr>disease_status = ''Negative'', predicted_probability = 0.2\<rparr>] \<and>
   (\<exists>r. ap (createPRCurve [\<lparr>disease_status = ''Positive'', predicted_probability = 0.9\<rparr>,
                  \<lparr>disease_status = ''Negative'', predicted_probability = 0.2\<rparr>]) = Fin r \<and> 0 \<le> r \<and> r \<le> 1) \<and>
   pos_count [\<lparr>disease_status = ''Negative'', predicted_probability = 0.5\<rparr>] = 0 \<and>
   ap (createPRCurve [\<lparr>disease_status = ''Negative'', predicted_probability = 0.5\<rparr>]) = Fin 0"
proof -
  have h: "0 < pos_count [\<lparr>disease_status = ''Positive'', predicted_probability = 0.9\<rparr>,
                  \<lparr>disease_status = ''Negative'', predicted_probability = 0.2\<rparr>]"
    "pos_count [\<lparr>disease_status = ''Negative'', predicted_probability = 0.5\<rparr>] = 0"
    by (simp_all add: pos_count_def)
  from createPRCurve_ap[of "[\<lparr>disease_status = ''Positive'', predicted_probability = 0.9\<rparr>,
                  \<lparr>disease_status = ''Negative'', predicted_probability = 0.2\<rparr>]"]
    createPRCurve_ap[of "[\<lparr>disease_status = ''Negative'', predicted_probability = 0.5\<rparr>]"] h
  show ?thesis by blast
qed


section \<open>Properties of the rounding\<close>

text \<open>The decimal rounding of \<open>toFixed\<close> is monotone.\<close>

lemma round_dec_nonneg:
  "0 \<le> a \<Longrightarrow> a < 10 ^ 21 \<Longrightarrow> round_dec d a = of_int \<lfloor>a * 10 ^ d + 1 / 2\<rfloor> / 10 ^ d"
  by (cases "a = 0") (auto simp: round_dec_def)

lemma round_dec_neg:
  "a < 0 \<Longrightarrow> - (10 ^ 21) < a \<Longrightarrow> round_dec d a = - (of_int \<lfloor>- a * 10 ^ d + 1 / 2\<rfloor> / 10 ^ d)"
  by (auto simp: round_dec_def)

lemma round_dec_big: "10 ^ 21 \<le> \<bar>a\<bar> \<Longrightarrow> round_dec d a = a"
  by (simp add: round_dec_def)

lemma rnd_mono:
  fixes a b :: real
  shows "a \<le> b \<Longrightarrow> of_int \<lfloor>a * 10 ^ d + 1 / 2\<rfloor> / (10 ^ d :: real) \<le> of_int \<lfloor>b * 10 ^ d + 1 / 2\<rfloor> / 10 ^ d"
  by (intro divide_right_mono floor_mono of_int_le_iff[THEN iffD2] add_right_mono mult_right_mono) auto

lemma rnd_nonneg:
  fixes a :: real
  shows "0 \<le> a \<Longrightarrow> 0 \<le> of_int \<lfloor>a * 10 ^ d + 1 / 2\<rfloor> / (10 ^ d :: real)"
  by (intro divide_nonneg_nonneg) auto

lemma rnd_top:
  "of_int \<lfloor>(10 ^ 21 :: real) * 10 ^ d + 1 / 2\<rfloor> / (10 ^ d :: real) = 10 ^ 21"
proof -
  have "(10 ^ 21 :: real) * 10 ^ d + 1 / 2 = of_int (10 ^ 21 * 10 ^ d) + 1 / 2" by simp
  then have "\<lfloor>(10 ^ 21 :: real) * 10 ^ d + 1 / 2\<rfloor> = 10 ^ 21 * 10 ^ d"
    by (intro floor_unique) auto
  then show ?thesis by simp
qed

lemma round_dec_mono: "a \<le> b \<Longrightarrow> round_dec d a \<le> round_dec d b"
proof -
  assume ab: "a \<le> b"
  let ?R = "\<lambda>x::real. of_int \<lfloor>x * 10 ^ d + 1 / 2\<rfloor> / (10 ^ d :: real)"
  have top: "\<And>x. 0 \<le> x \<Longrightarrow> x < 10 ^ 21 \<Longrightarrow> ?R x \<le> 10 ^ 21"
    using rnd_mono[of _ "10 ^ 21" d] rnd_top[of d] by (metis less_eq_real_def)
  consider (bigneg) "a \<le> - (10 ^ 21)" | (neg) "- (10 ^ 21) < a" "a < 0"
    | (pos) "0 \<le> a" "a < 10 ^ 21" | (bigpos) "10 ^ 21 \<le> a"
    by linarith
  then show ?thesis
  proof cases
    case bigneg
    then have ra: "round_dec d a = a" by (simp add: round_dec_big)
    consider "b \<le> - (10 ^ 21)" | "- (10 ^ 21) < b" "b < 0" | "0 \<le> b" "b < 10 ^ 21" | "10 ^ 21 \<le> b"
      by linarith
    then show ?thesis
    proof cases
      case 1 then show ?thesis using ra ab by (simp add: round_dec_big)
    next
      case 2
      have "?R (- b) \<le> 10 ^ 21" using top[of "- b"] 2 by simp
      then show ?thesis using ra bigneg 2 by (simp add: round_dec_neg)
    next
      case 3
      have "a \<le> 0" using bigneg by (smt (verit) zero_less_power)
      moreover have "0 \<le> ?R b" using rnd_nonneg[of b d] 3 by blast
      ultimately have "a \<le> ?R b" by linarith
      then show ?thesis using ra 3 by (simp only: round_dec_nonneg)
    next
      case 4 then show ?thesis using ra ab by (simp add: round_dec_big)
    qed
  next
    case neg
    consider "b < 0" | "0 \<le> b" "b < 10 ^ 21" | "10 ^ 21 \<le> b" by linarith
    then show ?thesis
    proof cases
      case 1
      have "?R (- b) \<le> ?R (- a)" using rnd_mono[of "- b" "- a" d] ab by simp
      then show ?thesis using neg 1 ab by (simp add: round_dec_neg)
    next
      case 2
      have "0 \<le> ?R (- a)" using rnd_nonneg[of "- a" d] neg by simp
      moreover have "0 \<le> ?R b" using rnd_nonneg[of b d] 2 by blast
      ultimately have "- ?R (- a) \<le> ?R b" by linarith
      then show ?thesis using neg 2 by (simp only: round_dec_neg round_dec_nonneg)
    next
      case 3
      have "0 \<le> ?R (- a)" using rnd_nonneg[of "- a" d] neg by simp
      moreover have "(0::real) \<le> b" using 3 by (smt (verit) zero_less_power)
      ultimately have "- ?R (- a) \<le> b" by linarith
      moreover have "round_dec d b = b" using 3 by (simp add: round_dec_big)
      ultimately show ?thesis using neg by (simp only: round_dec_neg)
    qed
  next
    case pos
    consider "b < 10 ^ 21" | "10 ^ 21 \<le> b" by linarith
    then show ?thesis
    proof cases
      case 1
      then show ?thesis using pos ab rnd_mono[of a b d] by (simp add: round_dec_nonneg)
    next
      case 2
      then show ?thesis using pos top[of a] by (simp add: round_dec_nonneg round_dec_big)
    qed
  next
    case bigpos
    then show ?thesis using ab by (simp add: round_dec_big)
  qed
qed


lemma round_dec_zero: "round_dec d 0 = 0"
  by (simp add: round_dec_def)


text \<open>
  Rounding to the nearest integer is exact on the integers and monotone.
\<close>

lemma round_even_of_int [simp]: "round_even (of_int n) = n"
  by (simp add: round_even_def)

lemma round_even_zero [simp]: "round_even 0 = 0"
  using round_even_of_int[of 0] by simp

lemma round_even_range:
  "\<lfloor>q\<rfloor> \<le> round_even q" "round_even q \<le> \<lfloor>q\<rfloor> + 1"
  by (simp_all add: round_even_def Let_def)

lemma round_even_mono:
  assumes "q \<le> q'"
  shows "round_even q \<le> round_even q'"
proof (cases "\<lfloor>q\<rfloor> = \<lfloor>q'\<rfloor>")
  case True
  with assms show ?thesis by (auto simp: round_even_def Let_def)
next
  case False
  with assms have "\<lfloor>q\<rfloor> < \<lfloor>q'\<rfloor>" using floor_mono[OF assms] by linarith
  with round_even_range(2)[of q] round_even_range(1)[of q'] show ?thesis by linarith
qed

lemma round_even_nonneg: "0 \<le> q \<Longrightarrow> 0 \<le> round_even q"
  using round_even_mono[of 0 q] by simp

lemma round_even_le_int: "q \<le> of_int m \<Longrightarrow> round_even q \<le> m"
  using round_even_mono[of q "of_int m"] by (simp only: round_even_of_int)

lemma round_even_ge_int: "of_int m \<le> q \<Longrightarrow> m \<le> round_even q"
  using round_even_mono[of "of_int m" q] by (simp only: round_even_of_int)

text \<open>
  A positive value lies between two consecutive powers of 2. Hence its quotient by the
  unit in its last place is below \<open>2^53\<close>, and at least \<open>2^52\<close> unless the value is subnormal.
\<close>

lemma log_bracket:
  assumes "0 < a"
  shows "2 powr of_int \<lfloor>log 2 a\<rfloor> \<le> a" "a < 2 powr (of_int \<lfloor>log 2 a\<rfloor> + 1)"
proof -
  have a: "2 powr (log 2 a) = a" using assms by simp
  have "of_int \<lfloor>log 2 a\<rfloor> \<le> log 2 a" by simp
  then have "2 powr of_int \<lfloor>log 2 a\<rfloor> \<le> 2 powr (log 2 a)" by (rule powr_mono) simp
  then show "2 powr of_int \<lfloor>log 2 a\<rfloor> \<le> a" using a by simp
  have "log 2 a < of_int \<lfloor>log 2 a\<rfloor> + 1" by linarith
  then have "2 powr (log 2 a) < 2 powr (of_int \<lfloor>log 2 a\<rfloor> + 1)" by (rule powr_less_mono) simp
  then show "a < 2 powr (of_int \<lfloor>log 2 a\<rfloor> + 1)" using a by simp
qed

lemma ulp_exp_ge: "- 1074 \<le> ulp_exp a"
  by (simp add: ulp_exp_def)

lemma ulp_exp_mono: "0 < a \<Longrightarrow> a \<le> b \<Longrightarrow> ulp_exp a \<le> ulp_exp b"
  unfolding ulp_exp_def using floor_mono[of "log 2 a" "log 2 b"] by simp

lemma quotient_less:
  assumes "0 < a"
  shows "a / 2 powr of_int (ulp_exp a) < 2 ^ 53"
proof -
  let ?L = "\<lfloor>log 2 a\<rfloor>"
  have "of_int ?L + 1 \<le> of_int (ulp_exp a) + (53::real)" by (simp add: ulp_exp_def)
  then have "2 powr (of_int ?L + 1) \<le> 2 powr (of_int (ulp_exp a) + (53::real))"
    by (rule powr_mono) simp
  also have "\<dots> = 2 powr of_int (ulp_exp a) * 2 ^ 53"
    by (simp add: powr_add)
  finally have "a < 2 powr of_int (ulp_exp a) * 2 ^ 53" using log_bracket(2)[OF assms] by linarith
  then show ?thesis by (simp add: divide_less_eq mult.commute)
qed

lemma quotient_ge:
  assumes "0 < a" and "- 1074 < ulp_exp a"
  shows "2 ^ 52 \<le> a / 2 powr of_int (ulp_exp a)"
proof -
  let ?L = "\<lfloor>log 2 a\<rfloor>"
  from assms(2) have e: "of_int (ulp_exp a) + (52::real) = of_int ?L"
    by (simp add: ulp_exp_def max_def split: if_splits)
  have "2 powr of_int (ulp_exp a) * 2 ^ 52 = 2 powr (of_int (ulp_exp a) + (52::real))"
    by (simp add: powr_add)
  also have "\<dots> \<le> a" unfolding e using log_bracket(1)[OF assms(1)] .
  finally show ?thesis by (simp add: le_divide_eq mult.commute)
qed


lemma round_mag_zero [simp]: "round_mag 0 = Fin 0"
  by (simp add: round_mag_def round_val_def)

lemma round_mag_val: "round_mag a = (if 2 ^ 1024 \<le> round_val a then PInf else Fin (round_val a))"
  by (simp add: round_mag_def)

lemma round_val_nonneg: "0 \<le> a \<Longrightarrow> 0 \<le> round_val a"
  unfolding round_val_def by (intro mult_nonneg_nonneg) (simp_all add: round_even_nonneg)

lemma round_val_upper:
  assumes "0 < a"
  shows "round_val a \<le> 2 ^ 53 * 2 powr of_int (ulp_exp a)"
proof -
  have "round_even (a / 2 powr of_int (ulp_exp a)) \<le> 2 ^ 53"
    using quotient_less[OF assms] by (intro round_even_le_int) simp
  then have "(of_int (round_even (a / 2 powr of_int (ulp_exp a))) :: real) \<le> of_int (2 ^ 53)"
    by (simp only: of_int_le_iff)
  then show ?thesis unfolding round_val_def by (intro mult_right_mono) simp_all
qed

lemma round_val_lower:
  assumes "0 < a" and "- 1074 < ulp_exp a"
  shows "2 ^ 52 * 2 powr of_int (ulp_exp a) \<le> round_val a"
proof -
  have "2 ^ 52 \<le> round_even (a / 2 powr of_int (ulp_exp a))"
    using quotient_ge[OF assms] by (intro round_even_ge_int) simp
  then have "(of_int (2 ^ 52) :: real) \<le> of_int (round_even (a / 2 powr of_int (ulp_exp a)))"
    by (simp only: of_int_le_iff)
  then show ?thesis unfolding round_val_def by (intro mult_right_mono) simp_all
qed

text \<open>
  Rounding is monotone on the non-negative values: within a binade because
  \<open>round_even\<close> is, and across binades because a value of the lower binade is rounded
  to at most the power of 2 that separates the two.
\<close>

lemma round_val_mono:
  assumes "0 \<le> a" and "a \<le> b"
  shows "round_val a \<le> round_val b"
proof (cases "a = 0")
  case True
  then show ?thesis using round_val_nonneg[of b] assms by (simp add: round_val_def)
next
  case False
  with assms have pos: "0 < a" "0 < b" by simp_all
  show ?thesis
  proof (cases "ulp_exp a = ulp_exp b")
    case True
    have "a / 2 powr of_int (ulp_exp b) \<le> b / 2 powr of_int (ulp_exp b)"
      using assms(2) by (simp add: divide_right_mono)
    then have "round_even (a / 2 powr of_int (ulp_exp b)) \<le> round_even (b / 2 powr of_int (ulp_exp b))"
      by (rule round_even_mono)
    then show ?thesis unfolding round_val_def True by (intro mult_right_mono) simp_all
  next
    case False
    with ulp_exp_mono[OF pos(1) assms(2)] have lt: "ulp_exp a < ulp_exp b" by simp
    then have "of_int (ulp_exp a) + (1::real) \<le> of_int (ulp_exp b)" by linarith
    then have "2 powr (of_int (ulp_exp a) + (1::real)) \<le> 2 powr of_int (ulp_exp b)"
      by (rule powr_mono) simp
    then have "2 * 2 powr of_int (ulp_exp a) \<le> (2::real) powr of_int (ulp_exp b)"
      by (simp add: powr_add)
    then have "2 ^ 53 * 2 powr of_int (ulp_exp a) \<le> 2 ^ 52 * (2::real) powr of_int (ulp_exp b)"
      by simp
    moreover have "- 1074 < ulp_exp b" using lt ulp_exp_ge[of a] by linarith
    ultimately show ?thesis
      using round_val_upper[OF pos(1)] round_val_lower[OF pos(2)] by linarith
  qed
qed

text \<open>
  The doubles: a multiple \<open>n * 2^e\<close> with \<open>0 < n \<le> 2^53\<close> and \<open>e \<ge> -1074\<close> is rounded
  to itself. Every rounded value is of this form, so rounding twice is rounding once.
\<close>

lemma round_val_grid:
  assumes "0 < n" and "n \<le> 2 ^ 53" and "- 1074 \<le> e"
  shows "round_val (of_int n * 2 powr of_int e) = of_int n * 2 powr of_int e"
proof -
  let ?b = "of_int n * 2 powr of_int e :: real"
  let ?k = "\<lfloor>log 2 (of_int n)\<rfloor>"
  have npos: "0 < (of_int n :: real)" using assms(1) by simp
  have bpos: "0 < ?b" using npos by simp
  have "log 2 ?b = log 2 (of_int n) + of_int e"
    using npos by (simp add: log_mult)
  then have L: "\<lfloor>log 2 ?b\<rfloor> = ?k + e" by simp
  have p53: "(2::real) powr 53 = 2 ^ 53" by (simp add: powr_numeral)
  have "(of_int n :: real) \<le> of_int (2 ^ 53)" using assms(2) by (simp only: of_int_le_iff)
  then have "(of_int n :: real) \<le> 2 powr 53" unfolding p53 by simp
  with log_bracket(1)[OF npos] have "(2::real) powr of_int ?k \<le> 2 powr 53" by linarith
  then have "of_int ?k \<le> (53::real)" by (simp only: powr_le_cancel_iff one_less_numeral_iff semiring_norm)
  then have k53: "?k \<le> 53" by linarith
  have "\<exists>m::int. ?b / 2 powr of_int (ulp_exp ?b) = of_int m"
  proof (cases "?k = 53")
    case True
    then have "(2::real) powr 53 \<le> of_int n" using log_bracket(1)[OF npos] by simp
    then have "(of_int (2 ^ 53) :: real) \<le> of_int n" unfolding p53 by simp
    then have "2 ^ 53 \<le> n" by (simp only: of_int_le_iff)
    with assms(2) have n: "n = 2 ^ 53" by simp
    have ue: "ulp_exp ?b = e + 1" unfolding ulp_exp_def L True using assms(3) by simp
    have "(2::real) powr of_int (e + 1) = 2 powr of_int e * 2" by (simp add: powr_add)
    then have "?b / 2 powr of_int (e + 1) = of_int n / 2" by simp
    also have "\<dots> = of_int (2 ^ 52)" unfolding n by simp
    finally have "?b / 2 powr of_int (ulp_exp ?b) = of_int (2 ^ 52)" by (simp only: ue)
    then show ?thesis by blast
  next
    case False
    with k53 have "?k \<le> 52" by linarith
    then have le: "ulp_exp ?b \<le> e" unfolding ulp_exp_def L using assms(3) by linarith
    define u where "u = ulp_exp ?b"
    define d where "d = nat (e - u)"
    have "(of_int e :: real) = of_int u + real d" using le by (simp add: d_def u_def)
    then have "2 powr (of_int e :: real) = 2 powr (of_int u + real d)" by (rule arg_cong)
    also have "\<dots> = 2 powr of_int u * 2 ^ d" by (simp add: powr_add powr_realpow)
    finally have "?b / 2 powr of_int u = of_int n * 2 ^ d" by simp
    also have "\<dots> = of_int (n * 2 ^ d)" by simp
    finally show ?thesis unfolding u_def by blast
  qed
  then obtain m :: int where m: "?b / 2 powr of_int (ulp_exp ?b) = of_int m" by blast
  then have "?b = of_int m * 2 powr of_int (ulp_exp ?b)" by (simp add: field_simps)
  then show ?thesis unfolding round_val_def m round_even_of_int by simp
qed

lemma round_val_idem:
  assumes "0 \<le> a"
  shows "round_val (round_val a) = round_val a"
proof (cases "round_even (a / 2 powr of_int (ulp_exp a)) = 0")
  case True
  then have "round_val a = 0" by (simp add: round_val_def)
  then show ?thesis by (simp add: round_val_def)
next
  case False
  then have apos: "0 < a" using assms by (cases "a = 0") auto
  have "0 \<le> round_even (a / 2 powr of_int (ulp_exp a))"
    using assms by (intro round_even_nonneg) simp
  with False have n0: "0 < round_even (a / 2 powr of_int (ulp_exp a))" by simp
  have n1: "round_even (a / 2 powr of_int (ulp_exp a)) \<le> 2 ^ 53"
    using quotient_less[OF apos] by (intro round_even_le_int) simp
  from round_val_grid[OF n0 n1 ulp_exp_ge[of a]] show ?thesis by (simp add: round_val_def)
qed


lemma round_mag_cases:
  assumes "0 \<le> a"
  shows "round_mag a = PInf \<or> (\<exists>r. round_mag a = Fin r \<and> 0 \<le> r \<and> r = round_val a \<and> r < 2 ^ 1024)"
  using round_val_nonneg[OF assms] by (simp add: round_mag_val)

lemma round_mag_mono:
  assumes "0 \<le> a" and "a \<le> b"
  shows "js_le (round_mag a) (round_mag b)"
  using round_val_mono[OF assms] by (auto simp: round_mag_val js_le_def)

lemma round_mag_idem:
  assumes "0 \<le> a" and "round_mag a = Fin r"
  shows "round_mag r = Fin r"
proof -
  from assms(2) have r: "r = round_val a" "\<not> 2 ^ 1024 \<le> round_val a"
    by (simp_all add: round_mag_val split: if_splits)
  show ?thesis using round_val_idem[OF assms(1)] r by (simp add: round_mag_val)
qed

lemma round_mag_grid:
  assumes "0 \<le> n" and "n \<le> 2 ^ 53" and "- 1074 \<le> e" and "of_int n * 2 powr of_int e < (2::real) ^ 1024"
  shows "round_mag (of_int n * 2 powr of_int e) = Fin (of_int n * 2 powr of_int e)"
proof (cases "n = 0")
  case True
  then show ?thesis by simp
next
  case False
  with assms(1) have "0 < n" by simp
  from round_val_grid[OF this assms(2,3)] assms(4) show ?thesis by (simp add: round_mag_val)
qed

lemma round_mag_int:
  assumes "0 \<le> n" and "n \<le> 2 ^ 53"
  shows "round_mag (of_int n) = Fin (of_int n)"
proof -
  have "(of_int n :: real) \<le> of_int (2 ^ 53)" using assms(2) by (simp only: of_int_le_iff)
  then have "of_int n * 2 powr of_int 0 < (2::real) ^ 1024" by simp
  from round_mag_grid[OF assms _ this] show ?thesis by simp
qed

lemma binary64_int:
  assumes "\<bar>n\<bar> \<le> 2 ^ 53"
  shows "binary64 (of_int n) = Fin (of_int n)"
proof (cases "n < 0")
  case True
  then have "round_mag (of_int (- n)) = Fin (of_int (- n))"
    using assms by (intro round_mag_int) simp_all
  then show ?thesis using True by (simp add: binary64_def)
next
  case False
  then have "round_mag (of_int n) = Fin (of_int n)"
    using assms by (intro round_mag_int) simp_all
  then show ?thesis using False by (simp add: binary64_def)
qed

lemma binary64_mono:
  assumes "a \<le> b"
  shows "js_le (binary64 a) (binary64 b)"
proof -
  consider "0 \<le> a" | "a < 0" "b < 0" | "a < 0" "0 \<le> b" by linarith
  then show ?thesis
  proof cases
    case 1
    then show ?thesis using assms round_mag_mono[of a b] by (simp add: binary64_def)
  next
    case 2
    then have "js_le (round_mag (- b)) (round_mag (- a))"
      using assms by (intro round_mag_mono) simp_all
    moreover from round_mag_cases[of "- a"] round_mag_cases[of "- b"] 2
    have "round_mag (- a) = PInf \<or> (\<exists>r. round_mag (- a) = Fin r)"
         "round_mag (- b) = PInf \<or> (\<exists>r. round_mag (- b) = Fin r)" by auto
    ultimately show ?thesis using 2 by (auto simp: binary64_def js_le_def)
  next
    case 3
    from round_mag_cases[of "- a"] round_mag_cases[of b] 3
    show ?thesis by (auto simp: binary64_def js_le_def)
  qed
qed

lemma binary64_idem:
  assumes "binary64 a = Fin b"
  shows "binary64 b = Fin b"
proof (cases "a < 0")
  case True
  with assms have "js_neg (round_mag (- a)) = Fin b" by (simp add: binary64_def)
  then have r: "round_mag (- a) = Fin (- b)" by (cases "round_mag (- a)") simp_all
  with round_mag_cases[of "- a"] True have b: "b \<le> 0" by auto
  from round_mag_idem[OF _ r] True have i: "round_mag (- b) = Fin (- b)" by simp
  show ?thesis
  proof (cases "b = 0")
    case True
    then show ?thesis by (simp add: binary64_def)
  next
    case False
    with b have "b < 0" by simp
    then show ?thesis using i by (simp add: binary64_def)
  qed
next
  case False
  with assms have r: "round_mag a = Fin b" by (simp add: binary64_def)
  with round_mag_cases[of a] False have "0 \<le> b" by auto
  moreover from round_mag_idem[OF _ r] False have "round_mag b = Fin b" by simp
  ultimately show ?thesis by (simp add: binary64_def)
qed

lemma binary64_not_NaN: "binary64 a \<noteq> NaN"
proof (cases "a < 0")
  case True
  then show ?thesis using round_mag_cases[of "- a"] by (auto simp: binary64_def)
next
  case False
  then show ?thesis using round_mag_cases[of a] by (auto simp: binary64_def)
qed

lemma binary64_finite:
  assumes "\<bar>a\<bar> \<le> 10 ^ 21"
  shows "\<exists>b. binary64 a = Fin b"
proof -
  have p70: "(2::real) powr of_int 70 = 2 ^ 70" by (simp add: powr_numeral)
  have "round_mag (of_int 1 * 2 powr of_int 70) = Fin (of_int 1 * 2 powr of_int 70)"
    by (rule round_mag_grid) (simp_all add: powr_numeral)
  then have top: "round_mag (2 ^ 70) = Fin (2 ^ 70)" unfolding p70 by simp
  have le: "\<bar>a\<bar> \<le> 2 ^ 70" using assms by simp
  have "js_le (round_mag \<bar>a\<bar>) (round_mag (2 ^ 70))" by (rule round_mag_mono[OF _ le]) simp
  then have "\<exists>r. round_mag \<bar>a\<bar> = Fin r"
    using round_mag_cases[of "\<bar>a\<bar>"] unfolding top by (auto simp: js_le_def)
  then show ?thesis by (cases "a < 0") (auto simp: binary64_def)
qed

text \<open>
  The rounding of the doubles has the properties that \<open>rounding\<close> collects.
\<close>

lemma rounding_binary64: "rounding binary64"
  unfolding rounding_def
proof (intro conjI allI impI)
  show "binary64 0 = Fin 0" using binary64_int[of 0] by simp
  show "binary64 1 = Fin 1" using binary64_int[of 1] by simp
qed (simp_all add: binary64_not_NaN binary64_mono binary64_finite, erule binary64_idem)

text \<open>Integers up to \<open>2^53\<close> are doubles, and so is \<open>5/2\<close>; the two thresholds of \<open>tTest\<close> lie between such.\<close>

lemma binary64_numeral:
  "numeral k \<le> (2::int) ^ 53 \<Longrightarrow> binary64 (numeral k) = Fin (numeral k)"
  using binary64_int[of "numeral k"] by simp

lemma binary64_neg_numeral:
  "numeral k \<le> (2::int) ^ 53 \<Longrightarrow> binary64 (- numeral k) = Fin (- numeral k)"
  using binary64_int[of "- numeral k"] by simp

lemma binary64_zero: "binary64 0 = Fin 0"
  using binary64_int[of 0] by simp

lemma binary64_one: "binary64 1 = Fin 1"
  using binary64_int[of 1] by simp

lemmas binary64_exact = binary64_numeral binary64_neg_numeral binary64_zero binary64_one

lemma binary64_five_halves: "binary64 (5 / 2) = Fin (5 / 2)"
proof -
  have "round_mag (of_int 5 * 2 powr of_int (- 1)) = Fin (of_int 5 * 2 powr of_int (- 1))"
    by (rule round_mag_grid) (simp_all add: powr_minus)
  then show ?thesis by (simp add: binary64_def powr_minus)
qed

lemma binary64_between:
  assumes "binary64 lo = Fin lo" and "binary64 hi = Fin hi" and "lo \<le> a" and "a \<le> hi"
  shows "\<exists>c. binary64 a = Fin c \<and> lo \<le> c \<and> c \<le> hi"
proof -
  have "js_le (Fin lo) (binary64 a)" "js_le (binary64 a) (Fin hi)"
    using binary64_mono[OF assms(3)] binary64_mono[OF assms(4)] by (simp_all only: assms(1,2))
  then show ?thesis using binary64_not_NaN[of a]
    by (cases "binary64 a") (auto simp: js_le_def)
qed

lemma binary64_thresholds:
  "\<exists>c. binary64 1.96 = Fin c \<and> 1 \<le> c \<and> c \<le> 2"
  "\<exists>c. binary64 2.58 = Fin c \<and> 5 / 2 \<le> c \<and> c \<le> 3"
proof -
  show "\<exists>c. binary64 1.96 = Fin c \<and> 1 \<le> c \<and> c \<le> 2"
    by (rule binary64_between) (simp_all add: binary64_exact)
  show "\<exists>c. binary64 2.58 = Fin c \<and> 5 / 2 \<le> c \<and> c \<le> 3"
    by (rule binary64_between) (simp_all add: binary64_exact binary64_five_halves)
qed


section \<open>Properties of stats.js\<close>

text \<open>Consequences of the properties of a rounding.\<close>

lemma js_le_Fin [simp]: "js_le (Fin a) (Fin b) = (a \<le> b)"
  by (auto simp: js_le_def)

lemma nonneg_num_simps [simp]:
  "nonneg_num (Fin a) = (0 \<le> a)" "nonneg_num PInf" "\<not> nonneg_num NInf" "\<not> nonneg_num NaN"
  by (simp_all add: nonneg_num_def)

lemma representable_simps [simp]:
  "representable fl (Fin a) = (fl a = Fin a)" "representable fl PInf" "representable fl NInf"
  "\<not> representable fl NaN"
  by (simp_all add: representable_def)

lemma rounded_simps [simp]:
  "rounded fl (Fin a) = fl a" "rounded fl PInf = PInf" "rounded fl NInf = NInf" "rounded fl NaN = NaN"
  by (simp_all add: rounded_def)

lemma NaN_absorbs [simp]:
  "js_add x NaN = NaN" "js_mul x NaN = NaN" "js_div x NaN = NaN"
  "js_lt x NaN = False" "js_eq x NaN = False"
  by (cases x; simp)+

lemma finite_num_iff: "finite_num x = (\<exists>a. x = Fin a)"
  by (cases x) simp_all

lemma rounding_Fin: "rounding Fin"
  by (simp add: rounding_def)

lemma rounding_not_NaN: "rounding fl \<Longrightarrow> fl a \<noteq> NaN"
  by (simp add: rounding_def)

lemma rounding_mono: "rounding fl \<Longrightarrow> a \<le> b \<Longrightarrow> js_le (fl a) (fl b)"
  by (simp add: rounding_def)

lemma rounding_idem: "rounding fl \<Longrightarrow> fl a = Fin b \<Longrightarrow> fl b = Fin b"
  unfolding rounding_def by blast

lemma rounding_zero: "rounding fl \<Longrightarrow> fl 0 = Fin 0"
  by (simp add: rounding_def)

lemma rounding_one: "rounding fl \<Longrightarrow> fl 1 = Fin 1"
  by (simp add: rounding_def)

lemma rounding_nonneg: "rounding fl \<Longrightarrow> 0 \<le> a \<Longrightarrow> nonneg_num (fl a)"
proof -
  assume r: "rounding fl" and a: "0 \<le> a"
  have "js_le (fl 0) (fl a)" using r a by (rule rounding_mono)
  then have "js_le (Fin 0) (fl a)" using r by (simp add: rounding_zero)
  then show ?thesis by (cases "fl a") (auto simp: js_le_def)
qed

lemma rounding_representable: "rounding fl \<Longrightarrow> representable fl (fl a)"
  using rounding_not_NaN[of fl a] rounding_idem[of fl a]
  by (cases "fl a") auto

lemma rounded_representable:
  "rounding fl \<Longrightarrow> x \<noteq> NaN \<Longrightarrow> representable fl (rounded fl x)"
  by (cases x) (simp_all add: rounding_representable)

lemma rounded_Fin_representable:
  "rounding fl \<Longrightarrow> rounded fl x = Fin m \<Longrightarrow> fl m = Fin m"
  by (cases x) (auto dest: rounding_idem)

lemma const_196: "rounding fl \<Longrightarrow> \<exists>c. fl 1.96 = Fin c \<and> 1 \<le> c"
proof -
  assume r: "rounding fl"
  have "\<bar>1.96 :: real\<bar> \<le> 10 ^ 21" by simp
  then obtain c where c: "fl 1.96 = Fin c" using r unfolding rounding_def by blast
  have "js_le (fl 1) (fl 1.96)" using r by (rule rounding_mono) simp
  then have "1 \<le> c" unfolding c rounding_one[OF r] by simp
  then show ?thesis using c by blast
qed

lemma nonneg_rounded_add:
  "rounding fl \<Longrightarrow> nonneg_num x \<Longrightarrow> nonneg_num y \<Longrightarrow> nonneg_num (fl_add fl x y)"
  by (cases x; cases y) (simp_all add: fl_add_def rounding_nonneg)

lemma nonneg_rounded_mul:
  "rounding fl \<Longrightarrow> nonneg_num x \<Longrightarrow> nonneg_num (fl_mul fl x x)"
  by (cases x) (simp_all add: fl_mul_def rounding_nonneg)

lemma nonneg_rounded_div:
  "rounding fl \<Longrightarrow> nonneg_num x \<Longrightarrow> 0 < n \<Longrightarrow> nonneg_num (fl_div fl x (Fin (real n)))"
  by (cases x) (simp_all add: fl_div_def rounding_nonneg)

lemma nonneg_rounded_sqrt:
  "rounding fl \<Longrightarrow> nonneg_num x \<Longrightarrow> nonneg_num (fl_sqrt fl x)"
  by (cases x) (simp_all add: fl_sqrt_def rounding_nonneg)

lemma rounded_sqrt_Fin_nonneg:
  assumes "rounding fl" "fl_sqrt fl v = Fin s"
  shows "0 \<le> s"
proof (cases v)
  case (Fin a)
  show ?thesis
  proof (cases "a < 0")
    case True
    then show ?thesis using assms(2) Fin by (simp add: fl_sqrt_def)
  next
    case False
    then have "fl (sqrt a) = Fin s" using assms(2) Fin by (simp add: fl_sqrt_def)
    moreover have "nonneg_num (fl (sqrt a))" using False by (intro rounding_nonneg[OF assms(1)]) simp
    ultimately show ?thesis by simp
  qed
qed (use assms(2) in \<open>simp_all add: fl_sqrt_def\<close>)

text \<open>
  A finite standard deviation is not negative, and a finite mean is a value that the
  rounding delivers.
\<close>

lemma sd_finite_nonneg:
  assumes "rounding fl" "standardDeviation fl arr = Fin s"
  shows "0 \<le> s"
proof (cases "length (filter valid arr) \<le> 1")
  case True
  then show ?thesis using assms(2) by (simp add: standardDeviation_def)
next
  case False
  then obtain v where "fl_sqrt fl v = Fin s"
    using assms(2) by (auto simp: standardDeviation_def Let_def)
  then show ?thesis using assms(1) by (rule rounded_sqrt_Fin_nonneg[rotated])
qed

lemma mean_finite_representable:
  assumes "rounding fl" "mean fl arr = Fin m"
  shows "fl m = Fin m"
proof (cases "length (filter valid arr) = 0")
  case True
  then show ?thesis using assms by (simp add: mean_def rounding_zero)
next
  case False
  then obtain x where "rounded fl x = Fin m"
    using assms(2) by (auto simp: mean_def Let_def fl_div_def)
  then show ?thesis using assms(1) by (rule rounded_Fin_representable[rotated])
qed


text \<open>
  \<open>parseFloat(x.toFixed(d))\<close> is monotone on the values that the rounding delivers.
\<close>

lemma toFixed_parsed_representable:
  "fl a = Fin a \<Longrightarrow> toFixed_parsed fl d (Fin a) = fl (round_dec d a)"
  by (simp add: round_dec_big)

lemma toFixed_parsed_mono:
  assumes "rounding fl" "js_le x y" "representable fl x" "representable fl y"
  shows "js_le (toFixed_parsed fl d x) (toFixed_parsed fl d y)"
proof (cases x)
  case xf: (Fin a)
  then have ra: "fl a = Fin a" using assms(3) by simp
  show ?thesis
  proof (cases y)
    case yf: (Fin b)
    then have rb: "fl b = Fin b" using assms(4) by simp
    have "a \<le> b" using assms(2) xf yf by simp
    then have "js_le (fl (round_dec d a)) (fl (round_dec d b))"
      by (intro rounding_mono[OF assms(1)] round_dec_mono)
    then show ?thesis
      unfolding xf yf toFixed_parsed_representable[where fl=fl and a=a, OF ra] toFixed_parsed_representable[where fl=fl and a=b, OF rb] .
  next
    case PInf
    have "toFixed_parsed fl d (Fin a) \<noteq> NaN"
      unfolding toFixed_parsed_representable[where fl=fl and a=a, OF ra] using assms(1) by (rule rounding_not_NaN)
    then show ?thesis unfolding xf PInf
      by (cases "toFixed_parsed fl d (Fin a)") (simp_all add: js_le_def)
  qed (use assms(2) xf in \<open>simp_all add: js_le_def\<close>)
next
  case PInf
  then show ?thesis using assms(2) by (cases y) (simp_all add: js_le_def)
next
  case NInf
  show ?thesis
  proof (cases y)
    case (Fin b)
    then have rb: "fl b = Fin b" using assms(4) by simp
    have "toFixed_parsed fl d (Fin b) \<noteq> NaN"
      unfolding toFixed_parsed_representable[where fl=fl and a=b, OF rb] using assms(1) by (rule rounding_not_NaN)
    then show ?thesis unfolding NInf Fin
      by (cases "toFixed_parsed fl d (Fin b)") (simp_all add: js_le_def)
  qed (use assms(2) NInf in \<open>simp_all add: js_le_def\<close>)
next
  case NaN
  then show ?thesis using assms(3) by simp
qed

lemma rounded_sub_le:
  assumes "rounding fl" "fl m = Fin m" "nonneg_num g"
  shows "js_le (fl_sub fl (Fin m) g) (Fin m)" "representable fl (fl_sub fl (Fin m) g)"
proof -
  show "js_le (fl_sub fl (Fin m) g) (Fin m)"
  proof (cases g)
    case (Fin b)
    then have "m - b \<le> m" using assms(3) by simp
    then have "js_le (fl (m - b)) (fl m)" by (rule rounding_mono[OF assms(1)])
    then show ?thesis using Fin assms(2) by (simp add: fl_sub_def js_sub_def)
  qed (use assms(3) in \<open>simp_all add: fl_sub_def js_sub_def js_le_def\<close>)
  show "representable fl (fl_sub fl (Fin m) g)"
    using assms(1,3) by (cases g) (simp_all add: fl_sub_def js_sub_def rounding_representable)
qed

lemma rounded_add_ge:
  assumes "rounding fl" "fl m = Fin m" "nonneg_num g"
  shows "js_le (Fin m) (fl_add fl (Fin m) g)" "representable fl (fl_add fl (Fin m) g)"
proof -
  show "js_le (Fin m) (fl_add fl (Fin m) g)"
  proof (cases g)
    case (Fin b)
    then have "m \<le> m + b" using assms(3) by simp
    then have "js_le (fl m) (fl (m + b))" by (rule rounding_mono[OF assms(1)])
    then show ?thesis using Fin assms(2) by (simp add: fl_add_def)
  qed (use assms(3) in \<open>simp_all add: fl_add_def js_le_def\<close>)
  show "representable fl (fl_add fl (Fin m) g)"
    using assms(1,3) by (cases g) (simp_all add: fl_add_def rounding_representable)
qed

lemma root_count:
  assumes "rounding fl" "0 < n"
  shows "fl_sqrt fl (Fin (real n)) = PInf \<or> (\<exists>r. fl_sqrt fl (Fin (real n)) = Fin r \<and> 1 \<le> r)"
proof -
  have "1 \<le> sqrt (real n)" using assms(2) by simp
  then have "js_le (fl 1) (fl (sqrt (real n)))" by (rule rounding_mono[OF assms(1)])
  then have "js_le (Fin 1) (fl (sqrt (real n)))" by (simp add: rounding_one[OF assms(1)])
  then show ?thesis by (cases "fl (sqrt (real n))") (auto simp: fl_sqrt_def js_le_def)
qed

lemma margin_nonneg:
  assumes "rounding fl" "0 \<le> s" "0 < n"
  shows "nonneg_num (fl_mul fl (fl 1.96) (fl_div fl (Fin s) (fl_sqrt fl (Fin (real n)))))"
proof -
  from const_196[OF assms(1)] obtain c where c: "fl 1.96 = Fin c" "1 \<le> c" by blast
  have se: "nonneg_num (fl_div fl (Fin s) (fl_sqrt fl (Fin (real n))))"
    using root_count[OF assms(1,3)]
  proof (elim disjE exE conjE)
    assume "fl_sqrt fl (Fin (real n)) = PInf"
    then show ?thesis by (simp add: fl_div_def rounding_zero[OF assms(1)])
  next
    fix r assume r: "fl_sqrt fl (Fin (real n)) = Fin r" "1 \<le> r"
    then have "0 \<le> s / r" using assms(2) by simp
    then have "nonneg_num (fl (s / r))" by (rule rounding_nonneg[OF assms(1)])
    then show ?thesis using r by (simp add: fl_div_def)
  qed
  show ?thesis
  proof (cases "fl_div fl (Fin s) (fl_sqrt fl (Fin (real n)))")
    case (Fin e)
    then have "0 \<le> c * e" using se c(2) by simp
    then have "nonneg_num (fl (c * e))" by (rule rounding_nonneg[OF assms(1)])
    then show ?thesis using Fin c by (simp add: fl_mul_def)
  next
    case PInf
    then show ?thesis using c by (simp add: fl_mul_def inf_times_def)
  qed (use se in simp_all)
qed


lemma filter_valid_idem [simp]: "filter valid (filter valid arr) = filter valid arr"
  by simp

lemma mean_filtered [simp]: "mean fl (filter valid arr) = mean fl arr"
  by (simp add: mean_def)

lemma standardDeviation_filtered [simp]:
  "standardDeviation fl (filter valid arr) = standardDeviation fl arr"
  by (simp add: standardDeviation_def)

text \<open>
  The ordering of the confidence interval, for every rounding.
\<close>

lemma ci_ordered_rounding:
  assumes "rounding fl"
  shows "(filter valid arr = [] \<longrightarrow>
            confidenceInterval95 fl arr =
              \<lparr>ci_mean = Fin 0, ci_lower = Fin 0, ci_upper = Fin 0, ci_se = Fin 0\<rparr>) \<and>
         (filter valid arr \<noteq> [] \<and> finite_stats fl arr \<longrightarrow>
            js_le (ci_lower (confidenceInterval95 fl arr)) (ci_mean (confidenceInterval95 fl arr)) \<and>
            js_le (ci_mean (confidenceInterval95 fl arr)) (ci_upper (confidenceInterval95 fl arr)))"
proof (intro conjI impI)
  assume "filter valid arr = []"
  then show "confidenceInterval95 fl arr =
      \<lparr>ci_mean = Fin 0, ci_lower = Fin 0, ci_upper = Fin 0, ci_se = Fin 0\<rparr>"
    by (simp add: confidenceInterval95_def)
next
  assume h: "filter valid arr \<noteq> [] \<and> finite_stats fl arr"
  then obtain m s where m: "mean fl arr = Fin m" and s: "standardDeviation fl arr = Fin s"
    by (auto simp: finite_stats_def finite_num_iff)
  have rm: "fl m = Fin m" using assms m by (rule mean_finite_representable)
  have s0: "0 \<le> s" using assms s by (rule sd_finite_nonneg)
  have n: "0 < length (filter valid arr)" using h by simp
  define g where "g = fl_mul fl (fl 1.96)
      (fl_div fl (Fin s) (fl_sqrt fl (Fin (real (length (filter valid arr))))))"
  have g: "nonneg_num g" unfolding g_def using assms s0 n by (rule margin_nonneg)
  have ci: "ci_mean (confidenceInterval95 fl arr) = toFixed_parsed fl 2 (Fin m)"
    "ci_lower (confidenceInterval95 fl arr) = toFixed_parsed fl 2 (fl_sub fl (Fin m) g)"
    "ci_upper (confidenceInterval95 fl arr) = toFixed_parsed fl 2 (fl_add fl (Fin m) g)"
    using h by (simp_all add: confidenceInterval95_def Let_def m s g_def)
  have repm: "representable fl (Fin m)" using rm by simp
  show "js_le (ci_lower (confidenceInterval95 fl arr)) (ci_mean (confidenceInterval95 fl arr))"
    unfolding ci using assms rounded_sub_le[OF assms rm g] repm
    by (intro toFixed_parsed_mono) simp_all
  show "js_le (ci_mean (confidenceInterval95 fl arr)) (ci_upper (confidenceInterval95 fl arr))"
    unfolding ci using assms rounded_add_ge[OF assms rm g] repm
    by (intro toFixed_parsed_mono) simp_all
qed

lemma ci_infinite_sample:
  "ci_mean (confidenceInterval95 fl [Num PInf, Num (Fin 1)]) = PInf"
  "ci_lower (confidenceInterval95 fl [Num PInf, Num (Fin 1)]) = NaN"
  by (simp_all add: confidenceInterval95_def mean_def standardDeviation_def js_sum_def Let_def
      fl_add_def fl_sub_def fl_mul_def fl_div_def fl_sqrt_def fl_pow2_def js_sub_def)

lemma t_statistic_welch:
  "t_statistic fl (filter valid arr1) (filter valid arr2) = welch_t fl arr1 arr2"
  by (simp add: t_statistic_def t_pooledSE_def t_meanDiff_def welch_t_def Let_def)

lemma jsnum_order:
  assumes "c1 \<noteq> NaN" "c2 \<noteq> NaN" "js_le c1 c2"
  shows "(\<not> js_lt a c1 \<and> js_lt a c2) = (js_ge a c1 \<and> js_lt a c2)"
    and "(\<not> js_lt a c1 \<and> \<not> js_lt a c2) = (js_ge a c2 \<or> a = NaN)"
proof -
  show "(\<not> js_lt a c1 \<and> js_lt a c2) = (js_ge a c1 \<and> js_lt a c2)"
    using assms by (cases a; cases c1; cases c2) (auto simp: js_ge_def js_le_def)
  show "(\<not> js_lt a c1 \<and> \<not> js_lt a c2) = (js_ge a c2 \<or> a = NaN)"
    using assms by (cases a; cases c1; cases c2) (auto simp: js_ge_def js_le_def)
qed

lemma js_abs_NaN: "(js_abs t = NaN) = (t = NaN)"
  by (cases t) simp_all

lemma welch_t_same:
  assumes "rounding fl" "finite_stats fl arr" "filter valid arr \<noteq> []"
  shows "welch_t fl arr arr = Fin 0"
proof -
  from assms(2) obtain m s where m: "mean fl arr = Fin m" and s: "standardDeviation fl arr = Fin s"
    by (auto simp: finite_stats_def finite_num_iff)
  have s0: "0 \<le> s" using assms(1) s by (rule sd_finite_nonneg)
  have n: "0 < length (filter valid arr)" using assms(3) by simp
  define v where "v = fl_div fl (fl_mul fl (Fin s) (Fin s)) (Fin (real (length (filter valid arr))))"
  have "nonneg_num (fl_mul fl (Fin s) (Fin s))" using assms(1) s0 by (intro nonneg_rounded_mul) simp_all
  then have v: "nonneg_num v" unfolding v_def using assms(1) n by (intro nonneg_rounded_div)
  define p where "p = fl_sqrt fl (fl_add fl v v)"
  have p: "nonneg_num p" unfolding p_def using assms(1) v
    by (intro nonneg_rounded_sqrt nonneg_rounded_add)
  have w: "welch_t fl arr arr = (if js_eq p (Fin 0) then Fin 0 else fl_div fl (fl (m - m)) p)"
    by (simp add: welch_t_def Let_def m s v_def p_def fl_sub_def js_sub_def)
  show ?thesis
  proof (cases p)
    case (Fin q)
    then show ?thesis unfolding w using rounding_zero[OF assms(1)] by (simp add: fl_div_def)
  next
    case PInf
    then show ?thesis unfolding w using rounding_zero[OF assms(1)] by (simp add: fl_div_def)
  qed (use p in simp_all)
qed

lemma const_order:
  assumes "rounding fl"
  shows "fl 1.96 \<noteq> NaN" "fl 2.58 \<noteq> NaN" "js_le (fl 1.96) (fl 2.58)" "js_lt (Fin 0) (fl 1.96)"
proof -
  show "fl 1.96 \<noteq> NaN" "fl 2.58 \<noteq> NaN" using assms by (simp_all add: rounding_not_NaN)
  show "js_le (fl 1.96) (fl 2.58)" using assms by (rule rounding_mono) simp
  from const_196[OF assms] show "js_lt (Fin 0) (fl 1.96)" by auto
qed

lemma tTest_tStatistic:
  "filter valid arr1 \<noteq> [] \<Longrightarrow> filter valid arr2 \<noteq> [] \<Longrightarrow>
   tStatistic (tTest fl arr1 arr2) = toFixed_parsed fl 3 (welch_t fl arr1 arr2)"
  by (simp add: tTest_def Let_def t_statistic_welch)

lemma tTest_meanDiff:
  "filter valid arr1 \<noteq> [] \<Longrightarrow> filter valid arr2 \<noteq> [] \<Longrightarrow>
   meanDiff (tTest fl arr1 arr2) = toFixed_parsed fl 2 (fl_sub fl (mean fl arr1) (mean fl arr2))"
  by (simp add: tTest_def Let_def t_meanDiff_def)

lemma tTest_pValue:
  "filter valid arr1 \<noteq> [] \<Longrightarrow> filter valid arr2 \<noteq> [] \<Longrightarrow>
   pValue (tTest fl arr1 arr2) =
     PString (if js_lt (js_abs (welch_t fl arr1 arr2)) (fl 1.96) then ''>0.05''
              else if js_lt (js_abs (welch_t fl arr1 arr2)) (fl 2.58) then ''<0.05'' else ''<0.01'')"
  by (simp add: tTest_def Let_def t_statistic_welch)

lemma bucket_cases:
  "(PString (if A then ''>0.05'' else if B then ''<0.05'' else ''<0.01'') = PString ''>0.05'') = A"
  "(PString (if A then ''>0.05'' else if B then ''<0.05'' else ''<0.01'') = PString ''<0.05'') = (\<not> A \<and> B)"
  "(PString (if A then ''>0.05'' else if B then ''<0.05'' else ''<0.01'') = PString ''<0.01'') = (\<not> A \<and> \<not> B)"
  by (cases A; cases B; simp)+

lemma tTest_same:
  assumes "rounding fl" "filter valid arr \<noteq> []" "finite_stats fl arr"
  shows "tStatistic (tTest fl arr arr) = Fin 0" "pValue (tTest fl arr arr) = PString ''>0.05''"
proof -
  have w: "welch_t fl arr arr = Fin 0" using assms(1,3,2) by (rule welch_t_same)
  have z: "toFixed_parsed fl 3 (Fin 0) = Fin 0"
    using rounding_zero[OF assms(1)] by (simp add: round_dec_zero)
  show "tStatistic (tTest fl arr arr) = Fin 0"
    unfolding tTest_tStatistic[OF assms(2,2)] w z ..
  have "js_lt (js_abs (Fin 0)) (fl 1.96)" using const_order(4)[OF assms(1)] by simp
  then show "pValue (tTest fl arr arr) = PString ''>0.05''"
    unfolding tTest_pValue[OF assms(2,2)] w by simp
qed

text \<open>
  The buckets of \<open>tTest\<close>, for every rounding.
\<close>

lemma tTest_buckets_rounding:
  assumes "rounding fl" and "filter valid arr1 \<noteq> []" and "filter valid arr2 \<noteq> []"
  shows "t_statistic fl (filter valid arr1) (filter valid arr2) = welch_t fl arr1 arr2 \<and>
         tStatistic (tTest fl arr1 arr2) = toFixed_parsed fl 3 (welch_t fl arr1 arr2) \<and>
         meanDiff (tTest fl arr1 arr2) = toFixed_parsed fl 2 (fl_sub fl (mean fl arr1) (mean fl arr2)) \<and>
         (pValue (tTest fl arr1 arr2) = PString ''>0.05'') =
            js_lt (js_abs (welch_t fl arr1 arr2)) (fl 1.96) \<and>
         (pValue (tTest fl arr1 arr2) = PString ''<0.05'') =
            (js_ge (js_abs (welch_t fl arr1 arr2)) (fl 1.96) \<and>
             js_lt (js_abs (welch_t fl arr1 arr2)) (fl 2.58)) \<and>
         (pValue (tTest fl arr1 arr2) = PString ''<0.01'') =
            (js_ge (js_abs (welch_t fl arr1 arr2)) (fl 2.58) \<or> welch_t fl arr1 arr2 = NaN) \<and>
         (finite_stats fl arr1 \<longrightarrow>
            tStatistic (tTest fl arr1 arr1) = Fin 0 \<and>
            pValue (tTest fl arr1 arr1) = PString ''>0.05'')"
proof (intro conjI impI)
  note co = const_order[OF assms(1)]
  show "t_statistic fl (filter valid arr1) (filter valid arr2) = welch_t fl arr1 arr2"
    by (rule t_statistic_welch)
  show "tStatistic (tTest fl arr1 arr2) = toFixed_parsed fl 3 (welch_t fl arr1 arr2)"
    using assms(2,3) by (rule tTest_tStatistic)
  show "meanDiff (tTest fl arr1 arr2) = toFixed_parsed fl 2 (fl_sub fl (mean fl arr1) (mean fl arr2))"
    using assms(2,3) by (rule tTest_meanDiff)
  show "(pValue (tTest fl arr1 arr2) = PString ''>0.05'') =
            js_lt (js_abs (welch_t fl arr1 arr2)) (fl 1.96)"
    unfolding tTest_pValue[OF assms(2,3)] by (rule bucket_cases(1))
  show "(pValue (tTest fl arr1 arr2) = PString ''<0.05'') =
            (js_ge (js_abs (welch_t fl arr1 arr2)) (fl 1.96) \<and>
             js_lt (js_abs (welch_t fl arr1 arr2)) (fl 2.58))"
    unfolding tTest_pValue[OF assms(2,3)] bucket_cases(2)
    by (rule jsnum_order(1)[OF co(1,2,3)])
  show "(pValue (tTest fl arr1 arr2) = PString ''<0.01'') =
            (js_ge (js_abs (welch_t fl arr1 arr2)) (fl 2.58) \<or> welch_t fl arr1 arr2 = NaN)"
    unfolding tTest_pValue[OF assms(2,3)] bucket_cases(3)
      js_abs_NaN[of "welch_t fl arr1 arr2", symmetric]
    by (rule jsnum_order(2)[OF co(1,2,3)])
next
  assume "finite_stats fl arr1"
  with assms(1,2) show "tStatistic (tTest fl arr1 arr1) = Fin 0"
    and "pValue (tTest fl arr1 arr1) = PString ''>0.05''"
    by (rule tTest_same)+
qed

lemma tTest_infinite_sample:
  "welch_t fl [Num PInf, Num (Fin 1)] [Num PInf, Num (Fin 1)] = NaN"
  "tStatistic (tTest fl [Num PInf, Num (Fin 1)] [Num PInf, Num (Fin 1)]) = NaN"
  "pValue (tTest fl [Num PInf, Num (Fin 1)] [Num PInf, Num (Fin 1)]) = PString ''<0.01''"
  by (simp_all add: tTest_def welch_t_def t_statistic_def t_pooledSE_def t_meanDiff_def mean_def
      standardDeviation_def js_sum_def Let_def
      fl_add_def fl_sub_def fl_mul_def fl_div_def fl_sqrt_def fl_pow2_def js_sub_def)

text \<open>Two samples with the means 0 and 10 and the standard deviations 6 and 8.\<close>

lemma sqrt_squares: "sqrt 36 = 6" "sqrt 64 = 8" "sqrt 25 = 5"
  by (rule real_sqrt_unique; simp)+

lemma stats_example:
  "mean binary64 [Num (Fin 9), Null, Num (Fin (- 3)), Num (Fin (- 3)), Num (Fin (- 3))] = Fin 0"
  "standardDeviation binary64 [Num (Fin 9), Null, Num (Fin (- 3)), Num (Fin (- 3)), Num (Fin (- 3))] = Fin 6"
  "mean binary64 [Num (Fin 22), Num (Fin 6), Num (Fin 6), Num (Fin 6), Num NaN] = Fin 10"
  "standardDeviation binary64 [Num (Fin 22), Num (Fin 6), Num (Fin 6), Num (Fin 6), Num NaN] = Fin 8"
  by (simp_all add: mean_def standardDeviation_def js_sum_def Let_def
      fl_add_def fl_sub_def fl_div_def fl_sqrt_def fl_pow2_def js_sub_def sqrt_squares
      binary64_exact)

lemma welch_example:
  "welch_t binary64 [Num (Fin 9), Null, Num (Fin (- 3)), Num (Fin (- 3)), Num (Fin (- 3))]
     [Num (Fin 22), Num (Fin 6), Num (Fin 6), Num (Fin 6), Num NaN] = Fin (- 2)"
  unfolding welch_t_def stats_example Let_def
  by (simp add: fl_add_def fl_sub_def fl_mul_def fl_div_def fl_sqrt_def js_sub_def sqrt_squares
      binary64_exact)

lemma round_dec_examples: "round_dec 3 (- 2) = - 2" "round_dec 2 (- 10) = - 10"
  by (simp_all add: round_dec_def)

lemma ci_mean_rounded:
  "filter valid arr \<noteq> [] \<Longrightarrow>
   ci_mean (confidenceInterval95 fl arr) = toFixed_parsed fl 2 (mean fl arr)"
  by (simp add: confidenceInterval95_def Let_def)

text \<open>
  Claim C9. When either input of \<open>tTest\<close> is empty after the filter, the result is exactly
  \<open>{tStatistic: 0, pValue: 1, meanDiff: 0}\<close>: \<open>pValue\<close> is the number 1 and none of the
  three bucket strings. When both inputs are non-empty after the filter, \<open>pValue\<close> is one
  of the three bucket strings. Neither depends on the rounding.
\<close>

theorem tTest_empty_input:
  "(filter valid arr1 = [] \<or> filter valid arr2 = [] \<longrightarrow>
      tTest fl arr1 arr2 = \<lparr>tStatistic = Fin 0, pValue = PNumber (Fin 1), meanDiff = Fin 0, df = None\<rparr> \<and>
      pValue (tTest fl arr1 arr2) \<notin> {PString ''>0.05'', PString ''<0.05'', PString ''<0.01''}) \<and>
   (filter valid arr1 \<noteq> [] \<and> filter valid arr2 \<noteq> [] \<longrightarrow>
      pValue (tTest fl arr1 arr2) \<in> {PString ''>0.05'', PString ''<0.05'', PString ''<0.01''})"
  by (auto simp: tTest_def Let_def)

theorem tTest_empty_input_witness:
  "filter valid [Null, Num NaN] = [] \<and>
   tTest binary64 [Null, Num NaN] [Num (Fin 2)] =
     \<lparr>tStatistic = Fin 0, pValue = PNumber (Fin 1), meanDiff = Fin 0, df = None\<rparr> \<and>
   filter valid [Num PInf, Num (Fin 1)] \<noteq> [] \<and> filter valid [Num (Fin 2)] \<noteq> [] \<and>
   pValue (tTest binary64 [Num PInf, Num (Fin 1)] [Num (Fin 2)])
     \<in> {PString ''>0.05'', PString ''<0.05'', PString ''<0.01''}"
proof -
  have a: "filter valid [Null, Num NaN] = []" by simp
  have b: "filter valid [Num PInf, Num (Fin 1)] \<noteq> []" "filter valid [Num (Fin 2)] \<noteq> []" by simp_all
  from tTest_empty_input[of "[Null, Num NaN]" "[Num (Fin 2)]" binary64] a
    tTest_empty_input[of "[Num PInf, Num (Fin 1)]" "[Num (Fin 2)]" binary64] b
  show ?thesis by blast
qed

text \<open>
  Claim C3, as amended. For two samples that are non-empty after the filter, the statistic
  \<open>t\<close> that \<open>tTest\<close> computes is the Welch statistic (0 when the pooled standard error is
  0), the returned \<open>tStatistic\<close> is \<open>t\<close> rounded to three decimals, and \<open>pValue\<close> is
  \<open>">0.05"\<close> exactly when \<open>|t| < 1.96\<close>, \<open>"<0.05"\<close> exactly when \<open>1.96 \<le> |t| < 2.58\<close>, and
  \<open>"<0.01"\<close> exactly when \<open>|t| \<ge> 2.58\<close> or \<open>t\<close> is NaN. The thresholds are the doubles
  that the literals denote and the comparisons are those of the language. For a sample on
  which the code computes a finite mean and a finite standard deviation, tested against
  itself, \<open>tStatistic\<close> is 0 and \<open>pValue\<close> is \<open>">0.05"\<close>.
\<close>

theorem tTest_three_buckets:
  assumes "filter valid arr1 \<noteq> []" and "filter valid arr2 \<noteq> []"
  shows "t_statistic binary64 (filter valid arr1) (filter valid arr2) = welch_t binary64 arr1 arr2 \<and>
         tStatistic (tTest binary64 arr1 arr2) = toFixed_parsed binary64 3 (welch_t binary64 arr1 arr2) \<and>
         meanDiff (tTest binary64 arr1 arr2) =
            toFixed_parsed binary64 2 (fl_sub binary64 (mean binary64 arr1) (mean binary64 arr2)) \<and>
         (pValue (tTest binary64 arr1 arr2) = PString ''>0.05'') =
            js_lt (js_abs (welch_t binary64 arr1 arr2)) (binary64 1.96) \<and>
         (pValue (tTest binary64 arr1 arr2) = PString ''<0.05'') =
            (js_ge (js_abs (welch_t binary64 arr1 arr2)) (binary64 1.96) \<and>
             js_lt (js_abs (welch_t binary64 arr1 arr2)) (binary64 2.58)) \<and>
         (pValue (tTest binary64 arr1 arr2) = PString ''<0.01'') =
            (js_ge (js_abs (welch_t binary64 arr1 arr2)) (binary64 2.58) \<or>
             welch_t binary64 arr1 arr2 = NaN) \<and>
         (finite_stats binary64 arr1 \<longrightarrow>
            tStatistic (tTest binary64 arr1 arr1) = Fin 0 \<and>
            pValue (tTest binary64 arr1 arr1) = PString ''>0.05'')"
  using rounding_binary64 assms by (rule tTest_buckets_rounding)

text \<open>
  Claim C3 as stated fails on a sample with an infinity in it: \<open>[Infinity, 1]\<close> passes
  the filter, and tested against itself it has the mean \<open>Infinity\<close>, so the difference of
  the means and the statistic are NaN. Both comparisons with the thresholds are then
  false and \<open>pValue\<close> is \<open>"<0.01"\<close>, although \<open>|t| \<ge> 2.58\<close> does not hold, and the returned
  \<open>tStatistic\<close> is NaN and not 0.
\<close>

theorem tTest_three_buckets_counterexample:
  "filter valid [Num PInf, Num (Fin 1)] \<noteq> [] \<and>
   t_statistic binary64 (filter valid [Num PInf, Num (Fin 1)]) (filter valid [Num PInf, Num (Fin 1)]) = NaN \<and>
   \<not> js_ge (js_abs (t_statistic binary64 (filter valid [Num PInf, Num (Fin 1)])
                      (filter valid [Num PInf, Num (Fin 1)]))) (binary64 2.58) \<and>
   pValue (tTest binary64 [Num PInf, Num (Fin 1)] [Num PInf, Num (Fin 1)]) = PString ''<0.01'' \<and>
   tStatistic (tTest binary64 [Num PInf, Num (Fin 1)] [Num PInf, Num (Fin 1)]) = NaN"
  using tTest_infinite_sample[of binary64]
    t_statistic_welch[of binary64 "[Num PInf, Num (Fin 1)]" "[Num PInf, Num (Fin 1)]"]
  by (simp add: js_ge_def js_le_def)

theorem tTest_three_buckets_witness:
  "filter valid [Num (Fin 9), Null, Num (Fin (- 3)), Num (Fin (- 3)), Num (Fin (- 3))] \<noteq> [] \<and>
   filter valid [Num (Fin 22), Num (Fin 6), Num (Fin 6), Num (Fin 6), Num NaN] \<noteq> [] \<and>
   t_statistic binary64
     (filter valid [Num (Fin 9), Null, Num (Fin (- 3)), Num (Fin (- 3)), Num (Fin (- 3))])
     (filter valid [Num (Fin 22), Num (Fin 6), Num (Fin 6), Num (Fin 6), Num NaN]) = Fin (- 2) \<and>
   tStatistic (tTest binary64 [Num (Fin 9), Null, Num (Fin (- 3)), Num (Fin (- 3)), Num (Fin (- 3))]
     [Num (Fin 22), Num (Fin 6), Num (Fin 6), Num (Fin 6), Num NaN]) = Fin (- 2) \<and>
   meanDiff (tTest binary64 [Num (Fin 9), Null, Num (Fin (- 3)), Num (Fin (- 3)), Num (Fin (- 3))]
     [Num (Fin 22), Num (Fin 6), Num (Fin 6), Num (Fin 6), Num NaN]) = Fin (- 10) \<and>
   pValue (tTest binary64 [Num (Fin 9), Null, Num (Fin (- 3)), Num (Fin (- 3)), Num (Fin (- 3))]
     [Num (Fin 22), Num (Fin 6), Num (Fin 6), Num (Fin 6), Num NaN]) = PString ''<0.05'' \<and>
   finite_stats binary64 [Num (Fin 9), Null, Num (Fin (- 3)), Num (Fin (- 3)), Num (Fin (- 3))] \<and>
   tStatistic (tTest binary64 [Num (Fin 9), Null, Num (Fin (- 3)), Num (Fin (- 3)), Num (Fin (- 3))]
     [Num (Fin 9), Null, Num (Fin (- 3)), Num (Fin (- 3)), Num (Fin (- 3))]) = Fin 0 \<and>
   pValue (tTest binary64 [Num (Fin 9), Null, Num (Fin (- 3)), Num (Fin (- 3)), Num (Fin (- 3))]
     [Num (Fin 9), Null, Num (Fin (- 3)), Num (Fin (- 3)), Num (Fin (- 3))]) = PString ''>0.05''"
proof -
  let ?A = "[Num (Fin 9), Null, Num (Fin (- 3)), Num (Fin (- 3)), Num (Fin (- 3))]"
  let ?B = "[Num (Fin 22), Num (Fin 6), Num (Fin 6), Num (Fin 6), Num NaN]"
  have ne: "filter valid ?A \<noteq> []" "filter valid ?B \<noteq> []" by simp_all
  have fs: "finite_stats binary64 ?A" by (simp add: finite_stats_def stats_example)
  from binary64_thresholds obtain c1 c2 where
    c: "binary64 1.96 = Fin c1" "c1 \<le> 2" "binary64 2.58 = Fin c2" "5 / 2 \<le> c2" by blast
  note th = tTest_three_buckets[OF ne, unfolded welch_example stats_example]
  have w: "t_statistic binary64 (filter valid ?A) (filter valid ?B) = Fin (- 2)"
    using th by blast
  have t: "tStatistic (tTest binary64 ?A ?B) = Fin (- 2)"
    using th by (simp add: round_dec_examples binary64_exact)
  have m: "meanDiff (tTest binary64 ?A ?B) = Fin (- 10)"
    using th by (simp add: fl_sub_def js_sub_def round_dec_examples binary64_exact)
  have "(pValue (tTest binary64 ?A ?B) = PString ''<0.05'') =
      (js_ge (js_abs (Fin (- 2))) (binary64 1.96) \<and> js_lt (js_abs (Fin (- 2))) (binary64 2.58))"
    using th by blast
  then have p: "pValue (tTest binary64 ?A ?B) = PString ''<0.05''"
    using c by (simp add: js_ge_def)
  have s: "tStatistic (tTest binary64 ?A ?A) = Fin 0 \<and> pValue (tTest binary64 ?A ?A) = PString ''>0.05''"
    using th fs by blast
  from ne w t m p fs s show ?thesis by blast
qed

text \<open>
  Claim C5, as amended. For an input that is empty after the filter,
  \<open>confidenceInterval95\<close> returns exactly \<open>{mean: 0, lower: 0, upper: 0, se: 0}\<close>. For a
  sample that is non-empty after the filter and on which the code computes a finite mean
  and a finite standard deviation, the rounded fields satisfy \<open>lower \<le> mean \<le> upper\<close>
  under the comparison of the language.
\<close>

theorem confidenceInterval95_ordered:
  "(filter valid arr = [] \<longrightarrow>
      confidenceInterval95 binary64 arr =
        \<lparr>ci_mean = Fin 0, ci_lower = Fin 0, ci_upper = Fin 0, ci_se = Fin 0\<rparr>) \<and>
   (filter valid arr \<noteq> [] \<and> finite_stats binary64 arr \<longrightarrow>
      js_le (ci_lower (confidenceInterval95 binary64 arr)) (ci_mean (confidenceInterval95 binary64 arr)) \<and>
      js_le (ci_mean (confidenceInterval95 binary64 arr)) (ci_upper (confidenceInterval95 binary64 arr)))"
  using rounding_binary64 by (rule ci_ordered_rounding)

text \<open>
  Claim C5 as stated fails on the same sample: \<open>[Infinity, 1]\<close> is non-empty after the
  filter, its mean is \<open>Infinity\<close> and its margin is NaN, so \<open>lower\<close> is NaN and
  \<open>lower \<le> mean\<close> is false.
\<close>

theorem confidenceInterval95_ordered_counterexample:
  "filter valid [Num PInf, Num (Fin 1)] \<noteq> [] \<and>
   ci_mean (confidenceInterval95 binary64 [Num PInf, Num (Fin 1)]) = PInf \<and>
   ci_lower (confidenceInterval95 binary64 [Num PInf, Num (Fin 1)]) = NaN \<and>
   \<not> js_le (ci_lower (confidenceInterval95 binary64 [Num PInf, Num (Fin 1)]))
            (ci_mean (confidenceInterval95 binary64 [Num PInf, Num (Fin 1)]))"
  by (simp add: ci_infinite_sample js_le_def)

theorem confidenceInterval95_ordered_witness:
  "filter valid [Null, Undefined, Num NaN] = [] \<and>
   confidenceInterval95 binary64 [Null, Undefined, Num NaN] =
     \<lparr>ci_mean = Fin 0, ci_lower = Fin 0, ci_upper = Fin 0, ci_se = Fin 0\<rparr> \<and>
   filter valid [Num (Fin 9), Null, Num (Fin (- 3)), Num (Fin (- 3)), Num (Fin (- 3))] \<noteq> [] \<and>
   finite_stats binary64 [Num (Fin 9), Null, Num (Fin (- 3)), Num (Fin (- 3)), Num (Fin (- 3))] \<and>
   ci_mean (confidenceInterval95 binary64
      [Num (Fin 9), Null, Num (Fin (- 3)), Num (Fin (- 3)), Num (Fin (- 3))]) = Fin 0 \<and>
   js_le (ci_lower (confidenceInterval95 binary64
            [Num (Fin 9), Null, Num (Fin (- 3)), Num (Fin (- 3)), Num (Fin (- 3))]))
         (ci_mean (confidenceInterval95 binary64
            [Num (Fin 9), Null, Num (Fin (- 3)), Num (Fin (- 3)), Num (Fin (- 3))])) \<and>
   js_le (ci_mean (confidenceInterval95 binary64
            [Num (Fin 9), Null, Num (Fin (- 3)), Num (Fin (- 3)), Num (Fin (- 3))]))
         (ci_upper (confidenceInterval95 binary64
            [Num (Fin 9), Null, Num (Fin (- 3)), Num (Fin (- 3)), Num (Fin (- 3))]))"
proof -
  let ?A = "[Num (Fin 9), Null, Num (Fin (- 3)), Num (Fin (- 3)), Num (Fin (- 3))]"
  have a: "filter valid [Null, Undefined, Num NaN] = []" by simp
  have b: "filter valid ?A \<noteq> []" by simp
  have fs: "finite_stats binary64 ?A" by (simp add: finite_stats_def stats_example)
  have m: "ci_mean (confidenceInterval95 binary64 ?A) = Fin 0"
    unfolding ci_mean_rounded[OF b] stats_example by (simp add: round_dec_zero binary64_exact)
  from confidenceInterval95_ordered[of "[Null, Undefined, Num NaN]"] a
    confidenceInterval95_ordered[of ?A] b fs m
  show ?thesis by blast
qed

end
